theory Spec2Isabelle
  imports Main "HOL-Library.Sublist" "HOL-Library.AList"
begin

section \<open>The monitoring script \<^verbatim>\<open>scripts/enhanced-monitoring.js\<close>\<close>

text \<open>
  The script shells out to git, tmux, python and node, reads the file system and changes
  the working directory of its own process. None of these collaborators is part of the
  repository, so the embedding is parametric in them: a value of type \<open>'w os\<close> gives, for
  an arbitrary type \<open>'w\<close> of states of the outside world, what a file-system test, a
  \<^verbatim>\<open>process.chdir\<close> and a shell command do. Every theorem below holds for
  every such value, and the concrete worlds further down are used to run the model.
\<close>

subsection \<open>JavaScript strings\<close>

text \<open>
  A string is a list of code units. \<^verbatim>\<open>s.includes(p)\<close> is the test for a contiguous
  occurrence, \<^verbatim>\<open>s.split(c)\<close> with a one-character separator cuts at every
  occurrence of it (and returns one empty piece for the empty string), and
  \<^verbatim>\<open>xs.join(c)\<close> puts the separator back between the pieces.
\<close>

definition js_includes :: "string \<Rightarrow> string \<Rightarrow> bool" where
  "js_includes s p = sublist p s"

fun js_split :: "char \<Rightarrow> string \<Rightarrow> string list" where
  "js_split c [] = [[]]"
| "js_split c (x # xs) =
     (if x = c then [] # js_split c xs
      else (case js_split c xs of
              [] \<Rightarrow> [[x]]
            | p # ps \<Rightarrow> (x # p) # ps))"

fun js_join :: "char \<Rightarrow> string list \<Rightarrow> string" where
  "js_join c [] = []"
| "js_join c [p] = p"
| "js_join c (p # q # ps) = p @ c # js_join c (q # ps)"

text \<open>\<^verbatim>\<open>xs.slice(-n)\<close>: the last \<open>n\<close> elements, all of them when there are fewer.\<close>

definition slice_last :: "nat \<Rightarrow> 'a list \<Rightarrow> 'a list" where
  "slice_last n xs = drop (length xs - n) xs"

text \<open>
  The script's \<^verbatim>\<open>exec\<close> returns the trimmed output of a command, or \<^verbatim>\<open>null\<close> when
  the command fails. The script tests these results for truthiness: \<^verbatim>\<open>null\<close> and the
  empty string are both falsy. \<open>ifTruthy\<close> keeps a truthy result and maps a falsy one to
  \<open>None\<close>.
\<close>

definition ifTruthy :: "string option \<Rightarrow> string option" where
  "ifTruthy r = (case r of None \<Rightarrow> None | Some s \<Rightarrow> if s = [] then None else Some s)"

definition newline :: char where
  "newline = CHR 0x0A"

subsection \<open>The outside world and the process\<close>

text \<open>
  The shell commands the script runs. The session name, the injected input and the run
  mode are the parts of the command line that vary; the alert carries the list of
  (session, pattern) pairs that the message body is built from.
\<close>

datatype command =
    PythonMCP string
  | GitLog
  | GitStatus
  | GitBranch
  | TmuxListSessions
  | TmuxCapturePane string
  | TmuxSendKeys string string
  | NodeQuickEmail "(string \<times> string) list"

text \<open>
  \<open>existsSync\<close> is \<^verbatim>\<open>fs.existsSync\<close> and \<open>chdir\<close> is \<^verbatim>\<open>process.chdir\<close>. Both
  take the working directory of the process first, against which a relative path is
  resolved, and then the path. \<open>chdir\<close> returns \<open>Inr\<close> of the directory the process is in
  afterwards (what \<^verbatim>\<open>process.cwd()\<close> then returns, which need not be the string that
  was passed), or \<open>Inl\<close> of the message of the exception it throws. \<open>saveReport\<close> is the
  outcome of writing the report file (\<^verbatim>\<open>fs.mkdirSync\<close> and \<^verbatim>\<open>fs.writeFileSync\<close>):
  \<open>None\<close> when the file is written, the message of the exception otherwise. The commands
  the script runs do not create or remove the paths it tests, so these three do not
  depend on the state of the world. \<open>execSync\<close> runs a command in a working directory
  and returns what the script's \<^verbatim>\<open>exec\<close> wrapper returns (the trimmed output, or
  \<open>None\<close> for \<^verbatim>\<open>null\<close>) together with the world after the command. The pause between
  an injection and the re-capture is part of the world's move at the next command.
  Every command is taken to return: \<open>execSync\<close> is a total function, and a command
  that blocks for ever is outside the model.
\<close>

record 'w os =
  existsSync :: "string \<Rightarrow> string \<Rightarrow> bool"
  chdir :: "string \<Rightarrow> string \<Rightarrow> string + string"
  execSync :: "string \<Rightarrow> command \<Rightarrow> 'w \<Rightarrow> string option \<times> 'w"
  saveReport :: "string option"

text \<open>The lines the script writes with \<^verbatim>\<open>log\<close>, one constructor for each call.\<close>

datatype log_msg =
    LogRunningMCP string
  | LogMCPScriptNotFound
  | LogMCPCompleted
  | LogMCPNoData
  | LogCheckingGit
  | LogGitOk string string string
  | LogNoGitHistory string
  | LogGitError string
  | LogPathNotFound string
  | LogDetecting
  | LogFoundStuck nat
  | LogStuckSession string
  | LogStuckPattern string
  | LogStuckContext string
  | LogNoStuck
  | LogNoTmux
  | LogAutoFixStart
  | LogAttemptFix string
  | LogFixed string string
  | LogSendingAlert
  | LogAlertSent
  | LogEmailScriptMissing
  | LogGenerating

text \<open>
  The state of a run: the world, the working directory of the process (what
  \<^verbatim>\<open>process.cwd()\<close> returns), every call of \<^verbatim>\<open>exec\<close> so far with its working directory and its result, and the
  lines logged so far.
\<close>

type_synonym call = "string \<times> command \<times> string option"

record 'w proc =
  world :: 'w
  cwd :: string
  trace :: "call list"
  console :: "log_msg list"

definition log :: "log_msg \<Rightarrow> 'w proc \<Rightarrow> 'w proc" where
  "log m st = st\<lparr>console := console st @ [m]\<rparr>"

definition exec :: "'w os \<Rightarrow> command \<Rightarrow> 'w proc \<Rightarrow> string option \<times> 'w proc" where
  "exec os c st =
     (case execSync os (cwd st) c (world st) of
        (r, w) \<Rightarrow> (r, st\<lparr>world := w, trace := trace st @ [(cwd st, c, r)]\<rparr>))"

subsection \<open>runMCPMonitoring\<close>

record mcp_result =
  success :: bool
  data :: "string option"
  error :: "string option"

definition mcpScript :: string where
  "mcpScript =
     ''/Users/shakeelbhamani/projects/personal/Tmux-Orchestrator/claude-monitoring-mcp-client.py''"

text \<open>
  The \<^verbatim>\<open>catch\<close> of the source is dead code: \<^verbatim>\<open>exec\<close> never throws. The command line
  depends on the mode only through the test \<^verbatim>\<open>mode === 'quick'\<close>.
\<close>

definition runMCPMonitoring :: "'w os \<Rightarrow> string \<Rightarrow> 'w proc \<Rightarrow> mcp_result \<times> 'w proc" where
  "runMCPMonitoring os mode st0 =
     (let st1 = log (LogRunningMCP mode) st0 in
      if \<not> existsSync os (cwd st1) mcpScript then
        (\<lparr>success = False, data = None, error = Some ''MCP script not found''\<rparr>,
         log LogMCPScriptNotFound st1)
      else
        (case exec os (PythonMCP (if mode = ''quick'' then ''--quick'' else [])) st1 of
           (result, st2) \<Rightarrow>
             (case ifTruthy result of
                Some r \<Rightarrow>
                  (\<lparr>success = True, data = Some r, error = None\<rparr>, log LogMCPCompleted st2)
              | None \<Rightarrow>
                  (\<lparr>success = False, data = None, error = Some ''No data returned''\<rparr>,
                   log LogMCPNoData st2))))"

subsection \<open>checkGitProgress\<close>

text \<open>
  An entry of \<^verbatim>\<open>progressData\<close> is either the five fields the script fills in
  (\<^verbatim>\<open>path\<close>, \<^verbatim>\<open>latestCommit\<close>, \<^verbatim>\<open>uncommittedChanges\<close>, \<^verbatim>\<open>currentBranch\<close>,
  \<^verbatim>\<open>lastActivity\<close>, in this order) or the object \<^verbatim>\<open>{ error: error.message }\<close> written by the \<^verbatim>\<open>catch\<close>. Two statements of
  the \<^verbatim>\<open>try\<close> block can throw: \<^verbatim>\<open>process.chdir\<close>, and \<^verbatim>\<open>message.substring\<close> when
  the output of \<^verbatim>\<open>git log\<close> has fewer than four fields, so that \<^verbatim>\<open>message\<close> is
  \<^verbatim>\<open>undefined\<close>.
\<close>

datatype error_message = ChdirFailed string | MessageUndefined

datatype git_activity =
    Activity string "string list option" nat string string
  | GitError error_message

type_synonym progress_data = "(string \<times> git_activity) list"

text \<open>
  \<^verbatim>\<open>progressData[name] = v\<close> on the plain object \<^verbatim>\<open>progressData\<close>: the value of a
  key that is present is replaced and a new key is appended. The name \<^verbatim>\<open>__proto__\<close>
  is the exception: the assignment of an object to it goes to the setter inherited from
  \<^verbatim>\<open>Object.prototype\<close>, which changes the prototype and adds no key, so that
  \<^verbatim>\<open>Object.keys\<close> and \<^verbatim>\<open>JSON.stringify\<close> do not see it. The list keeps the keys in
  the order they were first written (JavaScript enumerates keys that look like array
  indices before the others; nothing below depends on the order).
\<close>

definition setProperty :: "string \<Rightarrow> git_activity \<Rightarrow> progress_data \<Rightarrow> progress_data" where
  "setProperty name v progressData =
     (if name = ''__proto__'' then progressData else AList.update name v progressData)"

text \<open>
  The body of the loop over the registry. The commands run in the directory that
  \<^verbatim>\<open>process.chdir\<close> entered, while the entry records the path as the registry has it.
  When \<^verbatim>\<open>git log\<close> gave output with fewer than four fields, the entry written first is
  overwritten by the \<^verbatim>\<open>catch\<close>, so the error entry is what the loop body leaves.
\<close>

definition checkProject ::
  "'w os \<Rightarrow> string \<Rightarrow> string \<Rightarrow> progress_data \<Rightarrow> 'w proc \<Rightarrow> progress_data \<times> 'w proc" where
  "checkProject os name projectPath progressData st =
     (if existsSync os (cwd st) projectPath then
        (case chdir os (cwd st) projectPath of
           Inl msg \<Rightarrow>
             (setProperty name (GitError (ChdirFailed msg)) progressData,
              log (LogGitError name) st)
         | Inr dir \<Rightarrow>
             (case exec os GitLog (st\<lparr>cwd := dir\<rparr>) of (latestCommit, st1) \<Rightarrow>
              case exec os GitStatus st1 of (uncommittedChanges, st2) \<Rightarrow>
              case exec os GitBranch st2 of (branchInfo, st3) \<Rightarrow>
                (let changes = (case ifTruthy uncommittedChanges of
                                  Some u \<Rightarrow> length (js_split newline u)
                                | None \<Rightarrow> 0);
                     branch = (case ifTruthy branchInfo of
                                 Some b \<Rightarrow> b
                               | None \<Rightarrow> ''unknown'')
                 in case ifTruthy latestCommit of
                      None \<Rightarrow>
                        (setProperty name
                           (Activity projectPath None changes branch ''unknown'') progressData,
                         log (LogNoGitHistory name) st3)
                    | Some l \<Rightarrow>
                        (case js_split CHR ''|'' l of
                           hash # author # time # message # _ \<Rightarrow>
                             (setProperty name
                                (Activity projectPath (Some (js_split CHR ''|'' l)) changes
                                   branch time) progressData,
                              log (LogGitOk name (take 50 message) time) st3)
                         | _ \<Rightarrow>
                             (setProperty name (GitError MessageUndefined) progressData,
                              log (LogGitError name) st3)))))
      else (progressData, log (LogPathNotFound name) st))"

fun checkProjects ::
  "'w os \<Rightarrow> (string \<times> string) list \<Rightarrow> progress_data \<Rightarrow> 'w proc \<Rightarrow> progress_data \<times> 'w proc" where
  "checkProjects os [] progressData st = (progressData, st)"
| "checkProjects os ((name, projectPath) # rest) progressData st =
     (case checkProject os name projectPath progressData st of
        (progressData', st') \<Rightarrow> checkProjects os rest progressData' st')"

text \<open>
  An async function that throws returns a rejected promise. Two places of the script
  can throw outside every \<^verbatim>\<open>try\<close>: loading the registry in \<open>checkGitProgress\<close> and
  writing the report file in \<open>generateMonitoringReport\<close>.
\<close>

datatype js_error = RegistryNotLoaded | ReportNotSaved string

text \<open>
  \<open>registry\<close> is what \<^verbatim>\<open>require('../configs/project-paths.json').projectPaths\<close>
  gives to \<^verbatim>\<open>Object.entries\<close>: \<open>Some\<close> of the (name, path) pairs in enumeration order,
  or \<open>None\<close> when the file cannot be loaded or parsed or has no \<^verbatim>\<open>projectPaths\<close>
  object, in which case the function throws after its first log line. The values of the
  registry are strings, as its type \<^verbatim>\<open>Record<string, string>\<close> says.
\<close>

definition checkGitProgress ::
  "'w os \<Rightarrow> (string \<times> string) list option \<Rightarrow> 'w proc \<Rightarrow>
   (js_error + progress_data) \<times> 'w proc" where
  "checkGitProgress os registry st =
     (case registry of
        None \<Rightarrow> (Inl RegistryNotLoaded, log LogCheckingGit st)
      | Some projectPaths \<Rightarrow>
          (case checkProjects os projectPaths [] (log LogCheckingGit st) of
             (progressData, st') \<Rightarrow> (Inr progressData, st')))"

subsection \<open>detectStuckPrompts\<close>

definition stuckPatterns :: "string list" where
  \<open>stuckPatterns =
     [''Do you want to proceed?'',
      ''Press any key to continue'',
      ''Waiting for user input'',
      ''Type "y" to confirm'',
      ''Continue? (y/n)'',
      ''Approval required'',
      ''Enter to continue'',
      ''Would you like to'',
      ''Please confirm'',
      ''Proceed with'']\<close>

record stuck_session =
  session :: string
  pattern :: string
  content :: string

text \<open>
  The loop over the patterns for one session: the first pattern that the screen content
  includes pushes one entry and leaves the loop (\<^verbatim>\<open>break\<close>).
\<close>

fun matchPatterns ::
  "string option \<Rightarrow> string \<Rightarrow> string list \<Rightarrow> stuck_session list \<Rightarrow> stuck_session list" where
  "matchPatterns screenContent sessionName [] stuckSessions = stuckSessions"
| "matchPatterns screenContent sessionName (p # patterns) stuckSessions =
     (case ifTruthy screenContent of
        None \<Rightarrow> matchPatterns screenContent sessionName patterns stuckSessions
      | Some c \<Rightarrow>
          if js_includes c p then
            stuckSessions @
              [\<lparr>session = sessionName, pattern = p,
                content = js_join newline (slice_last 5 (js_split newline c))\<rparr>]
          else matchPatterns screenContent sessionName patterns stuckSessions)"

text \<open>\<^verbatim>\<open>session.split(':')[0]\<close>; the result of a split is never empty.\<close>

definition sessionNameOf :: "string \<Rightarrow> string" where
  "sessionNameOf line = (case js_split CHR '':'' line of [] \<Rightarrow> [] | n # _ \<Rightarrow> n)"

fun detectSessions ::
  "'w os \<Rightarrow> string list \<Rightarrow> stuck_session list \<Rightarrow> 'w proc \<Rightarrow> stuck_session list \<times> 'w proc" where
  "detectSessions os [] stuckSessions st = (stuckSessions, st)"
| "detectSessions os (line # sessions) stuckSessions st =
     (case exec os (TmuxCapturePane (sessionNameOf line)) st of
        (screenContent, st') \<Rightarrow>
          detectSessions os sessions
            (matchPatterns screenContent (sessionNameOf line) stuckPatterns stuckSessions) st')"

fun logStuck :: "stuck_session list \<Rightarrow> 'w proc \<Rightarrow> 'w proc" where
  "logStuck [] st = st"
| "logStuck (stuck # rest) st =
     logStuck rest
       (log (LogStuckContext (take 100 (content stuck)))
         (log (LogStuckPattern (pattern stuck))
           (log (LogStuckSession (session stuck)) st)))"

definition detectStuckPrompts :: "'w os \<Rightarrow> 'w proc \<Rightarrow> stuck_session list \<times> 'w proc" where
  "detectStuckPrompts os st0 =
     (case exec os TmuxListSessions (log LogDetecting st0) of
        (tmuxSessions, st1) \<Rightarrow>
          (case ifTruthy tmuxSessions of
             None \<Rightarrow> ([], log LogNoTmux st1)
           | Some t \<Rightarrow>
               (case detectSessions os (js_split newline t) [] st1 of
                  (stuckSessions, st2) \<Rightarrow>
                    if length stuckSessions > 0 then
                      (stuckSessions,
                       logStuck stuckSessions (log (LogFoundStuck (length stuckSessions)) st2))
                    else ([], log LogNoStuck st2))))"

subsection \<open>autoFixStuckPrompts\<close>

text \<open>The array \<^verbatim>\<open>fixes\<close> of the source.\<close>

definition fixes_list :: "string list" where
  "fixes_list = [''y'', ''yes'', [], ''q'', ''exit'']"

text \<open>
  The loop over the fallback inputs for one stuck session: inject, wait, capture again,
  and leave the loop with the line \<^verbatim>\<open>Fixed session\<close> as soon as the new capture is
  falsy or no longer includes the pattern. When the inputs run out the loop ends and nothing
  is logged.
\<close>

fun tryFixes :: "'w os \<Rightarrow> stuck_session \<Rightarrow> string list \<Rightarrow> 'w proc \<Rightarrow> 'w proc" where
  "tryFixes os stuck [] st = st"
| "tryFixes os stuck (fix # rest) st =
     (case exec os (TmuxSendKeys (session stuck) fix) st of (_, st1) \<Rightarrow>
      case exec os (TmuxCapturePane (session stuck)) st1 of (newContent, st2) \<Rightarrow>
        (case ifTruthy newContent of
           None \<Rightarrow> log (LogFixed (session stuck) fix) st2
         | Some c \<Rightarrow>
             if \<not> js_includes c (pattern stuck) then log (LogFixed (session stuck) fix) st2
             else tryFixes os stuck rest st2))"

text \<open>
  The loop over the stuck sessions. Nothing in its \<^verbatim>\<open>try\<close> block throws, so its
  \<^verbatim>\<open>catch\<close> is dead code.
\<close>

fun fixSessions :: "'w os \<Rightarrow> stuck_session list \<Rightarrow> 'w proc \<Rightarrow> 'w proc" where
  "fixSessions os [] st = st"
| "fixSessions os (stuck # rest) st =
     fixSessions os rest (tryFixes os stuck fixes_list (log (LogAttemptFix (session stuck)) st))"

definition autoFixStuckPrompts :: "'w os \<Rightarrow> stuck_session list \<Rightarrow> 'w proc \<Rightarrow> 'w proc" where
  "autoFixStuckPrompts os stuckSessions st =
     (if length stuckSessions = 0 then st
      else fixSessions os stuckSessions (log LogAutoFixStart st))"

subsection \<open>sendTokenWasteAlert\<close>

text \<open>
  \<open>emailScript\<close> is \<^verbatim>\<open>path.join(__dirname, 'quick-email.js')\<close>, a parameter here. The
  \<^verbatim>\<open>catch\<close> is dead code again.
\<close>

definition sendTokenWasteAlert ::
  "'w os \<Rightarrow> string \<Rightarrow> stuck_session list \<Rightarrow> 'w proc \<Rightarrow> 'w proc" where
  "sendTokenWasteAlert os emailScript stuckSessions st0 =
     (if length stuckSessions = 0 then st0
      else
        (let st1 = log LogSendingAlert st0 in
         if existsSync os (cwd st1) emailScript then
           (case exec os (NodeQuickEmail (map (\<lambda>s. (session s, pattern s)) stuckSessions)) st1 of
              (_, st2) \<Rightarrow> log LogAlertSent st2)
         else log LogEmailScriptMissing st1))"

subsection \<open>generateMonitoringReport\<close>

datatype mcp_status = Operational | StatusError

datatype health = Excellent | NeedsAttention

record summary =
  projectsChecked :: nat
  stuckPrompts :: nat
  mcpStatus :: mcp_status
  overallHealth :: health

text \<open>
  The report without its two clock readings (\<^verbatim>\<open>timestamp\<close> and \<^verbatim>\<open>duration\<close>);
  the field \<open>rep_x\<close> is the property \<^verbatim>\<open>x\<close> of the source's object.
\<close>

record report =
  rep_mcp :: mcp_result
  rep_gitProgress :: progress_data
  rep_stuckSessions :: "stuck_session list"
  rep_summary :: summary

text \<open>
  The function rejects when the git check rejects, before any detection, and when the
  report file cannot be written, after all phases have run. The summary it prints after
  saving the report changes nothing and is not part of the model.
\<close>

definition generateMonitoringReport ::
  "'w os \<Rightarrow> string \<Rightarrow> (string \<times> string) list option \<Rightarrow> 'w proc \<Rightarrow>
   (js_error + report) \<times> 'w proc" where
  "generateMonitoringReport os emailScript registry st0 =
     (case runMCPMonitoring os ''detailed'' (log LogGenerating st0) of (mcpResult, st1) \<Rightarrow>
      (case checkGitProgress os registry st1 of
        (Inl err, st2) \<Rightarrow> (Inl err, st2)
      | (Inr gitProgress, st2) \<Rightarrow>
          (case detectStuckPrompts os st2 of (stuckSessions, st3) \<Rightarrow>
            (let st5 = (if length stuckSessions > 0
                        then sendTokenWasteAlert os emailScript stuckSessions
                               (autoFixStuckPrompts os stuckSessions st3)
                        else st3);
                 report =
                   \<lparr>rep_mcp = mcpResult,
                    rep_gitProgress = gitProgress,
                    rep_stuckSessions = stuckSessions,
                    rep_summary =
                      \<lparr>projectsChecked = length gitProgress,
                       stuckPrompts = length stuckSessions,
                       mcpStatus = (if success mcpResult then Operational else StatusError),
                       overallHealth =
                         (if length stuckSessions = 0 \<and> success mcpResult
                          then Excellent else NeedsAttention)\<rparr>\<rparr>
             in case saveReport os of
                  Some msg \<Rightarrow> (Inl (ReportNotSaved msg), st5)
                | None \<Rightarrow> (Inr report, st5)))))"

subsection \<open>main\<close>

text \<open>
  In mode \<^verbatim>\<open>stuck\<close> the call of \<^verbatim>\<open>autoFixStuckPrompts\<close> is not awaited. An async
  function runs up to its first \<^verbatim>\<open>await\<close> when it is called, which here is the pause
  after the first injection into the first stuck session; \<^verbatim>\<open>process.exit\<close> then ends
  the process before the function is resumed.
\<close>

definition autoFixUntilFirstAwait ::
  "'w os \<Rightarrow> stuck_session list \<Rightarrow> 'w proc \<Rightarrow> 'w proc" where
  "autoFixUntilFirstAwait os stuckSessions st =
     (case stuckSessions of
        [] \<Rightarrow> st
      | stuck # _ \<Rightarrow>
          (case fixes_list of
             [] \<Rightarrow> log (LogAttemptFix (session stuck)) (log LogAutoFixStart st)
           | fix # _ \<Rightarrow>
               snd (exec os (TmuxSendKeys (session stuck) fix)
                      (log (LogAttemptFix (session stuck)) (log LogAutoFixStart st)))))"

text \<open>
  How the process ends: \<open>Exit n\<close> when \<^verbatim>\<open>process.exit(n)\<close> is called, \<open>Unhandled e\<close>
  when the promise of the selected mode rejects. \<open>main\<close> attaches no handler for that,
  \<^verbatim>\<open>process.exit\<close> is never reached, and the runtime ends the process on the unhandled
  rejection (with status 1 in current versions of Node). \<open>args\<close> is
  \<^verbatim>\<open>process.argv.slice(2)\<close>; a missing or empty first argument selects \<^verbatim>\<open>full\<close>, and
  so does every mode the \<^verbatim>\<open>switch\<close> does not name.
\<close>

datatype outcome = Exit nat | Unhandled js_error

definition modeOf :: "string list \<Rightarrow> string" where
  "modeOf args = (case args of [] \<Rightarrow> ''full'' | a # _ \<Rightarrow> if a = [] then ''full'' else a)"

definition main ::
  "'w os \<Rightarrow> string \<Rightarrow> (string \<times> string) list option \<Rightarrow> string list \<Rightarrow> 'w proc \<Rightarrow>
   outcome \<times> 'w proc" where
  "main os emailScript registry args st =
     (let mode = modeOf args in
      if mode = ''quick'' then
        (case runMCPMonitoring os ''quick'' st of
           (result, st') \<Rightarrow> (Exit (if success result then 0 else 1), st'))
      else if mode = ''git'' then
        (case checkGitProgress os registry st of
           (Inl err, st') \<Rightarrow> (Unhandled err, st')
         | (Inr result, st') \<Rightarrow> (Exit 0, st'))
      else if mode = ''stuck'' then
        (case detectStuckPrompts os st of
           (stuckSessions, st') \<Rightarrow>
             (Exit (length stuckSessions),
              if length stuckSessions > 0 then autoFixUntilFirstAwait os stuckSessions st'
              else st'))
      else
        (case generateMonitoringReport os emailScript registry st of
           (Inl err, st') \<Rightarrow> (Unhandled err, st')
         | (Inr report, st') \<Rightarrow>
             (Exit (if overallHealth (rep_summary report) = Excellent then 0 else 1), st')))"

section \<open>Observing a run\<close>

text \<open>
  What a part of a run did is read off the two logs of the state: the calls of
  \<^verbatim>\<open>exec\<close> and the console lines added between an earlier and a later state.
\<close>

definition newCalls :: "'w proc \<Rightarrow> 'w proc \<Rightarrow> call list" where
  "newCalls st st' = drop (length (trace st)) (trace st')"

text \<open>The inputs injected into a session, in order.\<close>

fun injections :: "string \<Rightarrow> call list \<Rightarrow> string list" where
  "injections s [] = []"
| "injections s ((d, c, r) # calls) =
     (case c of
        TmuxSendKeys s' f \<Rightarrow> if s' = s then f # injections s calls else injections s calls
      | _ \<Rightarrow> injections s calls)"

text \<open>What the captures of a session's pane returned, in order.\<close>

fun recaptures :: "string \<Rightarrow> call list \<Rightarrow> string option list" where
  "recaptures s [] = []"
| "recaptures s ((d, c, r) # calls) =
     (case c of
        TmuxCapturePane s' \<Rightarrow> if s' = s then r # recaptures s calls else recaptures s calls
      | _ \<Rightarrow> recaptures s calls)"

text \<open>The alerts handed to the e-mail script, in order.\<close>

fun alerts :: "call list \<Rightarrow> (string \<times> string) list list" where
  "alerts [] = []"
| "alerts ((d, c, r) # calls) =
     (case c of NodeQuickEmail body \<Rightarrow> body # alerts calls | _ \<Rightarrow> alerts calls)"

text \<open>
  The test of the recovery loop, \<^verbatim>\<open>newContent && newContent.includes(stuck.pattern)\<close>:
  the capture still shows the pattern.
\<close>

definition stillStuck :: "string \<Rightarrow> string option \<Rightarrow> bool" where
  "stillStuck p r = (case ifTruthy r of None \<Rightarrow> False | Some c \<Rightarrow> js_includes c p)"

text \<open>
  The walk of the git check through the registry. \<open>enter os d p\<close> is the working
  directory after the loop body for a project with path \<open>p\<close> that is reached in working
  directory \<open>d\<close>; \<open>visits\<close> lists the projects as (name, path, working directory in which
  the project is reached); \<open>entered\<close> lists the directories that the successful calls
  of \<^verbatim>\<open>process.chdir\<close> put the process in, in order.
\<close>

definition enter :: "'w os \<Rightarrow> string \<Rightarrow> string \<Rightarrow> string" where
  "enter os d p =
     (if existsSync os d p then (case chdir os d p of Inl msg \<Rightarrow> d | Inr dir \<Rightarrow> dir) else d)"

fun visits ::
  "'w os \<Rightarrow> (string \<times> string) list \<Rightarrow> string \<Rightarrow> (string \<times> string \<times> string) list" where
  "visits os [] d = []"
| "visits os ((n, p) # rest) d = (n, p, d) # visits os rest (enter os d p)"

definition entered :: "'w os \<Rightarrow> (string \<times> string \<times> string) list \<Rightarrow> string list" where
  "entered os vs =
     concat (map (\<lambda>(n, p, d).
       if existsSync os d p then (case chdir os d p of Inl msg \<Rightarrow> [] | Inr dir \<Rightarrow> [dir])
       else []) vs)"

text \<open>The three inspections of the git check, as (working directory, command).\<close>

definition inspections :: "string \<Rightarrow> (string \<times> command) list" where
  "inspections d = [(d, GitLog), (d, GitStatus), (d, GitBranch)]"

section \<open>Simulated worlds\<close>

text \<open>
  Worlds to run the model in. The state of a simulated world is the number of inputs
  injected so far; what a command prints may depend on it and on the working directory.
  \<open>sim_os\<close> builds a world in which every path is absolute and already resolved, so that
  the file-system tests ignore the working directory and \<^verbatim>\<open>process.chdir\<close> leaves the
  process in the path it is given, and in which the report is always saved.
\<close>

definition sim_os ::
  "(string \<Rightarrow> bool) \<Rightarrow> (string \<Rightarrow> string option) \<Rightarrow>
   (string \<Rightarrow> command \<Rightarrow> nat \<Rightarrow> string option) \<Rightarrow> nat os" where
  "sim_os ex cd run =
     \<lparr>existsSync = (\<lambda>d p. ex p),
      chdir = (\<lambda>d p. case cd p of Some msg \<Rightarrow> Inl msg | None \<Rightarrow> Inr p),
      execSync = (\<lambda>d c w. (run d c w, case c of TmuxSendKeys _ _ \<Rightarrow> Suc w | _ \<Rightarrow> w)),
      saveReport = None\<rparr>"

definition start :: "nat proc" where
  "start = \<lparr>world = 0, cwd = ''/home/dev'', trace = [], console = []\<rparr>"

definition emailJs :: string where
  "emailJs = ''/opt/prefs/scripts/quick-email.js''"

definition run_prompt :: "nat \<Rightarrow> string \<Rightarrow> command \<Rightarrow> nat \<Rightarrow> string option" where
  "run_prompt k d c w =
     (case c of
        PythonMCP _ \<Rightarrow> Some ''all agents healthy''
      | TmuxListSessions \<Rightarrow> Some ''main: 1 windows''
      | TmuxCapturePane s \<Rightarrow>
          if s = ''main'' then
            (if w < k then Some ''Do you want to proceed? Please confirm'' else Some ''done'')
          else None
      | TmuxSendKeys s f \<Rightarrow> Some []
      | NodeQuickEmail _ \<Rightarrow> Some ''sent''
      | _ \<Rightarrow> None)"

definition os_prompt :: "nat \<Rightarrow> nat os" where
  "os_prompt k = sim_os (\<lambda>p. True) (\<lambda>p. None) (run_prompt k)"

definition run_vanish :: "string \<Rightarrow> command \<Rightarrow> nat \<Rightarrow> string option" where
  "run_vanish d c w =
     (case c of
        PythonMCP _ \<Rightarrow> Some ''all agents healthy''
      | TmuxListSessions \<Rightarrow> Some (''main: 1 windows'' @ [newline] @ ''aux: 1 windows'')
      | TmuxCapturePane s \<Rightarrow>
          if s = ''main'' then (if w = 0 then Some ''Proceed with deploy'' else None)
          else if s = ''aux'' then (if w < 3 then Some ''Continue? (y/n)'' else Some ''$'')
          else None
      | TmuxSendKeys s f \<Rightarrow> (if s = ''main'' then None else Some [])
      | NodeQuickEmail _ \<Rightarrow> Some ''sent''
      | _ \<Rightarrow> None)"

definition os_vanish :: "nat os" where
  "os_vanish = sim_os (\<lambda>p. True) (\<lambda>p. None) run_vanish"

definition run_repos :: "string \<Rightarrow> command \<Rightarrow> nat \<Rightarrow> string option" where
  "run_repos d c w =
     (case c of
        PythonMCP _ \<Rightarrow> Some ''all agents healthy''
      | GitLog \<Rightarrow> if d = ''/srv/app'' then Some ''abc123|Dev|2 hours ago|Fix bug'' else None
      | GitStatus \<Rightarrow> if d = ''/srv/app'' then Some [] else None
      | GitBranch \<Rightarrow> if d = ''/srv/app'' then Some ''main'' else None
      | _ \<Rightarrow> None)"

definition os_repos :: "nat os" where
  "os_repos =
     sim_os (\<lambda>p. p \<noteq> ''/srv/gone'')
       (\<lambda>p. if p = ''/srv/notes.txt'' then Some ''ENOTDIR'' else None) run_repos"

definition registry :: "(string \<times> string) list" where
  "registry = [(''app'', ''/srv/app''), (''notes'', ''/srv/notes.txt''), (''gone'', ''/srv/gone'')]"

text \<open>
  A world with a relative path in the registry: \<^verbatim>\<open>docs\<close> exists only below
  \<^verbatim>\<open>/srv/app\<close>, and entering it from there puts the process in \<^verbatim>\<open>/srv/app/docs\<close>.
\<close>

definition os_relative :: "nat os" where
  "os_relative =
     \<lparr>existsSync = (\<lambda>d p. p = ''/srv/app'' \<or> (d = ''/srv/app'' \<and> p = ''docs'')),
      chdir = (\<lambda>d p. if p = ''/srv/app'' then Inr ''/srv/app''
                      else if d = ''/srv/app'' \<and> p = ''docs'' then Inr ''/srv/app/docs''
                      else Inl ''ENOENT''),
      execSync = (\<lambda>d c w. (None, w)),
      saveReport = None\<rparr>"

definition registry_relative :: "(string \<times> string) list" where
  "registry_relative = [(''app'', ''/srv/app''), (''docs'', ''docs'')]"

text \<open>A world like \<open>os_prompt 1\<close> in which the reports directory cannot be written.\<close>

definition os_readonly :: "nat os" where
  "os_readonly = (os_prompt 1)\<lparr>saveReport := Some ''EACCES''\<rparr>"

definition os_norepo :: "nat os" where
  "os_norepo = sim_os (\<lambda>p. True) (\<lambda>p. None) (\<lambda>d c w. None)"

definition run_capture :: "string option \<Rightarrow> string \<Rightarrow> command \<Rightarrow> nat \<Rightarrow> string option" where
  "run_capture r d c w =
     (case c of
        PythonMCP _ \<Rightarrow> Some ''all agents healthy''
      | TmuxListSessions \<Rightarrow> Some ''main: 1 windows''
      | TmuxCapturePane s \<Rightarrow> r
      | _ \<Rightarrow> None)"

definition os_capture :: "string option \<Rightarrow> nat os" where
  "os_capture r = sim_os (\<lambda>p. True) (\<lambda>p. None) (run_capture r)"

definition run_detached :: "string \<Rightarrow> command \<Rightarrow> nat \<Rightarrow> string option" where
  "run_detached d c w =
     (case c of
        GitLog \<Rightarrow> Some ''abc123|Dev|2 hours ago|Fix bug''
      | GitStatus \<Rightarrow> None
      | GitBranch \<Rightarrow> Some []
      | _ \<Rightarrow> None)"

definition os_detached :: "nat os" where
  "os_detached = sim_os (\<lambda>p. True) (\<lambda>p. None) run_detached"

text \<open>Entries of \<^verbatim>\<open>stuckSessions\<close> as the detection produces them in these worlds.\<close>

definition stuck_proceed :: stuck_session where
  "stuck_proceed =
     \<lparr>session = ''main'', pattern = ''Do you want to proceed?'',
      content = ''Do you want to proceed? Please confirm''\<rparr>"



text \<open>The reports that the full run produces in two of these worlds.\<close>

definition report_repos :: report where
  "report_repos =
     \<lparr>rep_mcp = \<lparr>success = True, data = Some ''all agents healthy'', error = None\<rparr>,
      rep_gitProgress =
        [(''app'', Activity ''/srv/app'' (Some [''abc123'', ''Dev'', ''2 hours ago'', ''Fix bug''])
                    0 ''main'' ''2 hours ago''),
         (''notes'', GitError (ChdirFailed ''ENOTDIR''))],
      rep_stuckSessions = [],
      rep_summary =
        \<lparr>projectsChecked = 2, stuckPrompts = 0, mcpStatus = Operational,
         overallHealth = Excellent\<rparr>\<rparr>"

definition report_prompt :: report where
  "report_prompt =
     \<lparr>rep_mcp = \<lparr>success = True, data = Some ''all agents healthy'', error = None\<rparr>,
      rep_gitProgress = [],
      rep_stuckSessions = [stuck_proceed],
      rep_summary =
        \<lparr>projectsChecked = 0, stuckPrompts = 1, mcpStatus = Operational,
         overallHealth = NeedsAttention\<rparr>\<rparr>"

section \<open>The two logs\<close>

lemma log_fields [simp]:
  "world (log m st) = world st" "cwd (log m st) = cwd st" "trace (log m st) = trace st"
  "console (log m st) = console st @ [m]"
  by (simp_all add: log_def)

lemma exec_fields:
  assumes "exec os c st = (r, st')"
  shows "cwd st' = cwd st" and "console st' = console st"
    and "trace st' = trace st @ [(cwd st, c, r)]"
  using assms by (auto simp: exec_def split: prod.splits)

lemma newCalls_same [simp]: "newCalls st st = []"
  by (simp add: newCalls_def)

lemma newCalls_log [simp]: "newCalls st (log m st') = newCalls st st'" "newCalls (log m st) st' = newCalls st st'"
  by (simp_all add: newCalls_def)

lemma newCalls_append: "trace st' = trace st @ ext \<Longrightarrow> newCalls st st' = ext"
  by (simp add: newCalls_def)

lemma injections_append [simp]: "injections s (xs @ ys) = injections s xs @ injections s ys"
  by (induction xs) (auto split: command.splits)

lemma recaptures_append [simp]: "recaptures s (xs @ ys) = recaptures s xs @ recaptures s ys"
  by (induction xs) (auto split: command.splits)

lemma alerts_append [simp]: "alerts (xs @ ys) = alerts xs @ alerts ys"
  by (induction xs) (auto split: command.splits)

lemma tryFixes_extends: "\<exists>ext. trace (tryFixes os stuck fs st) = trace st @ ext"
proof (induction fs arbitrary: st)
  case Nil
  then show ?case by simp
next
  case (Cons f rest)
  obtain r1 st1 where e1: "exec os (TmuxSendKeys (session stuck) f) st = (r1, st1)"
    by fastforce
  obtain r2 st2 where e2: "exec os (TmuxCapturePane (session stuck)) st1 = (r2, st2)"
    by fastforce
  from Cons.IH [of st2] obtain ext where "trace (tryFixes os stuck rest st2) = trace st2 @ ext" ..
  with e1 e2 show ?case
    by (auto simp: exec_fields split: option.splits)
qed

lemma tryFixes_trace: "trace (tryFixes os stuck fs st) = trace st @ newCalls st (tryFixes os stuck fs st)"
  using tryFixes_extends [of os stuck fs st] by (auto simp: newCalls_def)

lemma tryFixes_calls_Cons:
  assumes "exec os (TmuxSendKeys (session stuck) fix) st = (r1, st1)"
    and "exec os (TmuxCapturePane (session stuck)) st1 = (r2, st2)"
  shows "newCalls st (tryFixes os stuck (fix # rest) st) =
           (cwd st, TmuxSendKeys (session stuck) fix, r1) #
           (cwd st, TmuxCapturePane (session stuck), r2) #
           (if stillStuck (pattern stuck) r2 then newCalls st2 (tryFixes os stuck rest st2) else [])"
proof -
  have t2: "trace st2 = trace st @ [(cwd st, TmuxSendKeys (session stuck) fix, r1), (cwd st, TmuxCapturePane (session stuck), r2)]"
    using assms by (simp add: exec_fields)
  show ?thesis
  proof (cases "stillStuck (pattern stuck) r2")
    case True
    then have "tryFixes os stuck (fix # rest) st = tryFixes os stuck rest st2"
      using assms by (auto simp: stillStuck_def split: option.splits)
    moreover have "trace (tryFixes os stuck rest st2) = trace st2 @ newCalls st2 (tryFixes os stuck rest st2)"
      by (rule tryFixes_trace)
    ultimately have "trace (tryFixes os stuck (fix # rest) st) =
        trace st @ ((cwd st, TmuxSendKeys (session stuck) fix, r1) #
           (cwd st, TmuxCapturePane (session stuck), r2) # newCalls st2 (tryFixes os stuck rest st2))"
      using t2 by simp
    from newCalls_append [OF this] show ?thesis using True by simp
  next
    case False
    then have "tryFixes os stuck (fix # rest) st = log (LogFixed (session stuck) fix) st2"
      using assms by (auto simp: stillStuck_def split: option.splits)
    then have "trace (tryFixes os stuck (fix # rest) st) =
        trace st @ [(cwd st, TmuxSendKeys (session stuck) fix, r1),
           (cwd st, TmuxCapturePane (session stuck), r2)]"
      using t2 by simp
    from newCalls_append [OF this] show ?thesis using False by simp
  qed
qed


declare tryFixes.simps [simp del]

lemma tryFixes_Nil [simp]: "tryFixes os stuck [] st = st"
  by (simp add: tryFixes.simps)

lemma newCalls_trans:
  assumes "prefix (trace a) (trace b)" and "prefix (trace b) (trace c)"
  shows "newCalls a c = newCalls a b @ newCalls b c"
proof -
  from assms obtain x y where "trace b = trace a @ x" "trace c = trace b @ y"
    by (auto simp: prefix_def)
  then show ?thesis by (simp add: newCalls_def)
qed

lemma tryFixes_prefix: "prefix (trace st) (trace (tryFixes os stuck fs st))"
  using tryFixes_extends [of os stuck fs st] by (auto simp: prefix_def)

lemma tryFixes_cwd [simp]: "cwd (tryFixes os stuck fs st) = cwd st"
proof (induction fs arbitrary: st)
  case Nil
  then show ?case by simp
next
  case (Cons f rest)
  obtain r1 st1 where e1: "exec os (TmuxSendKeys (session stuck) f) st = (r1, st1)"
    by fastforce
  obtain r2 st2 where e2: "exec os (TmuxCapturePane (session stuck)) st1 = (r2, st2)"
    by fastforce
  from e1 e2 Cons.IH [of st2] show ?case
    by (auto simp: exec_fields tryFixes.simps split: option.splits)
qed

lemma tryFixes_attempts:
  "injections (session stuck) (newCalls st (tryFixes os stuck fs st)) =
     take (length (recaptures (session stuck) (newCalls st (tryFixes os stuck fs st)))) fs
   \<and> length (recaptures (session stuck) (newCalls st (tryFixes os stuck fs st))) \<le> length fs
   \<and> (\<forall>r \<in> set (butlast (recaptures (session stuck) (newCalls st (tryFixes os stuck fs st)))).
         stillStuck (pattern stuck) r)"
proof (induction fs arbitrary: st)
  case Nil
  then show ?case by simp
next
  case (Cons f rest)
  obtain r1 st1 where e1: "exec os (TmuxSendKeys (session stuck) f) st = (r1, st1)"
    by fastforce
  obtain r2 st2 where e2: "exec os (TmuxCapturePane (session stuck)) st1 = (r2, st2)"
    by fastforce
  show ?case
    using Cons.IH [of st2] by (simp add: tryFixes_calls_Cons [OF e1 e2])
qed

lemma tryFixes_others:
  "s \<noteq> session stuck \<Longrightarrow>
     injections s (newCalls st (tryFixes os stuck fs st)) = [] \<and>
     recaptures s (newCalls st (tryFixes os stuck fs st)) = []"
proof (induction fs arbitrary: st)
  case Nil
  then show ?case by simp
next
  case (Cons f rest)
  obtain r1 st1 where e1: "exec os (TmuxSendKeys (session stuck) f) st = (r1, st1)"
    by fastforce
  obtain r2 st2 where e2: "exec os (TmuxCapturePane (session stuck)) st1 = (r2, st2)"
    by fastforce
  show ?case
    using Cons.IH [of st2] Cons.prems by (simp add: tryFixes_calls_Cons [OF e1 e2])
qed

lemma tryFixes_alerts [simp]: "alerts (newCalls st (tryFixes os stuck fs st)) = []"
proof (induction fs arbitrary: st)
  case Nil
  then show ?case by simp
next
  case (Cons f rest)
  obtain r1 st1 where e1: "exec os (TmuxSendKeys (session stuck) f) st = (r1, st1)"
    by fastforce
  obtain r2 st2 where e2: "exec os (TmuxCapturePane (session stuck)) st1 = (r2, st2)"
    by fastforce
  show ?case
    using Cons.IH [of st2] by (simp add: tryFixes_calls_Cons [OF e1 e2])
qed



lemma tryFixes_first:
  "\<exists>more. injections (session stuck) (newCalls st (tryFixes os stuck (f # rest) st)) = f # more"
proof -
  obtain r1 st1 where e1: "exec os (TmuxSendKeys (session stuck) f) st = (r1, st1)"
    by fastforce
  obtain r2 st2 where e2: "exec os (TmuxCapturePane (session stuck)) st1 = (r2, st2)"
    by fastforce
  show ?thesis by (simp add: tryFixes_calls_Cons [OF e1 e2])
qed

lemma fixSessions_prefix: "prefix (trace st) (trace (fixSessions os ss st))"
proof (induction ss arbitrary: st)
  case Nil
  then show ?case by simp
next
  case (Cons stuck rest)
  have "prefix (trace st) (trace (tryFixes os stuck fixes_list (log (LogAttemptFix (session stuck)) st)))"
    using tryFixes_prefix [of "log (LogAttemptFix (session stuck)) st" os stuck fixes_list] by simp
  then show ?case
    using Cons.IH prefix_order.trans by fastforce
qed

lemma fixSessions_calls_Cons:
  "newCalls st (fixSessions os (stuck # rest) st) =
     newCalls st (tryFixes os stuck fixes_list (log (LogAttemptFix (session stuck)) st)) @
     newCalls (tryFixes os stuck fixes_list (log (LogAttemptFix (session stuck)) st))
       (fixSessions os rest (tryFixes os stuck fixes_list (log (LogAttemptFix (session stuck)) st)))"
proof -
  have "prefix (trace st) (trace (tryFixes os stuck fixes_list (log (LogAttemptFix (session stuck)) st)))"
    using tryFixes_prefix [of "log (LogAttemptFix (session stuck)) st" os stuck fixes_list] by simp
  from newCalls_trans [OF this fixSessions_prefix] show ?thesis by simp
qed

lemma fixSessions_bound:
  "length (injections s (newCalls st (fixSessions os ss st))) \<le>
     length fixes_list * count_list (map session ss) s"
proof (induction ss arbitrary: st)
  case Nil
  then show ?case by simp
next
  case (Cons stuck rest)
  let ?st1 = "log (LogAttemptFix (session stuck)) st"
  let ?st2 = "tryFixes os stuck fixes_list ?st1"
  have one: "length (injections s (newCalls st ?st2)) \<le> (if session stuck = s then length fixes_list else 0)"
    using tryFixes_attempts [of stuck ?st1 os fixes_list] tryFixes_others [of s stuck ?st1 os fixes_list]
    by auto
  have "length (injections s (newCalls ?st2 (fixSessions os rest ?st2))) \<le>
          length fixes_list * count_list (map session rest) s"
    by (rule Cons.IH)
  with one show ?case
    by (auto simp: fixSessions_calls_Cons simp del: fixSessions.simps)
qed

lemma fixSessions_each:
  "stuck \<in> set ss \<Longrightarrow>
     \<exists>f. f \<in> set (injections (session stuck) (newCalls st (fixSessions os ss st)))"
proof (induction ss arbitrary: st)
  case Nil
  then show ?case by simp
next
  case (Cons x rest)
  let ?st1 = "log (LogAttemptFix (session x)) st"
  let ?st2 = "tryFixes os x fixes_list ?st1"
  show ?case
  proof (cases "stuck = x")
    case True
    obtain more where "injections (session x) (newCalls st ?st2) = ''y'' # more"
      using tryFixes_first [of x ?st1 os "''y''"] by (auto simp: fixes_list_def)
    then show ?thesis using True
      by (auto simp: fixSessions_calls_Cons simp del: fixSessions.simps)
  next
    case False
    with Cons.prems have "stuck \<in> set rest" by simp
    from Cons.IH [OF this, of ?st2] show ?thesis
      by (auto simp: fixSessions_calls_Cons simp del: fixSessions.simps)
  qed
qed

lemma fixSessions_alerts [simp]: "alerts (newCalls st (fixSessions os ss st)) = []"
proof (induction ss arbitrary: st)
  case Nil
  then show ?case by simp
next
  case (Cons x rest)
  show ?case
    using Cons.IH tryFixes_alerts [of "log (LogAttemptFix (session x)) st" os x fixes_list]
    by (simp add: fixSessions_calls_Cons del: fixSessions.simps)
qed

lemma fixSessions_cwd [simp]: "cwd (fixSessions os ss st) = cwd st"
  by (induction ss arbitrary: st) simp_all

lemma autoFix_prefix: "prefix (trace st) (trace (autoFixStuckPrompts os ss st))"
  using fixSessions_prefix [of "log LogAutoFixStart st" os ss]
  by (simp add: autoFixStuckPrompts_def)

lemma autoFix_cwd [simp]: "cwd (autoFixStuckPrompts os ss st) = cwd st"
  by (simp add: autoFixStuckPrompts_def)

lemma autoFix_alerts [simp]: "alerts (newCalls st (autoFixStuckPrompts os ss st)) = []"
  using fixSessions_alerts [of "log LogAutoFixStart st" os ss]
  by (simp add: autoFixStuckPrompts_def)

lemma autoFix_bound:
  "length (injections s (newCalls st (autoFixStuckPrompts os ss st))) \<le>
     length fixes_list * count_list (map session ss) s"
  using fixSessions_bound [of s "log LogAutoFixStart st" os ss]
  by (simp add: autoFixStuckPrompts_def)

lemma autoFix_each:
  "stuck \<in> set ss \<Longrightarrow>
     \<exists>f. f \<in> set (injections (session stuck) (newCalls st (autoFixStuckPrompts os ss st)))"
  using fixSessions_each [of stuck ss "log LogAutoFixStart st" os]
  by (auto simp: autoFixStuckPrompts_def)


lemma exec_prefix: "exec os c st = (r, st') \<Longrightarrow> prefix (trace st) (trace st')"
  by (simp add: exec_fields)

lemma exec_calls: "exec os c st = (r, st') \<Longrightarrow> newCalls st st' = [(cwd st, c, r)]"
  by (simp add: exec_fields newCalls_def)

lemma runMCP_props:
  "cwd (snd (runMCPMonitoring os m st)) = cwd st \<and>
   prefix (trace st) (trace (snd (runMCPMonitoring os m st))) \<and>
   alerts (newCalls st (snd (runMCPMonitoring os m st))) = [] \<and>
   (success (fst (runMCPMonitoring os m st)) \<longleftrightarrow>
      existsSync os (cwd st) mcpScript \<and>
      ifTruthy (fst (execSync os (cwd st)
                  (PythonMCP (if m = ''quick'' then ''--quick'' else [])) (world st))) \<noteq> None)"
proof (cases "existsSync os (cwd st) mcpScript")
  case False
  then show ?thesis by (simp add: runMCPMonitoring_def)
next
  case True
  let ?c = "PythonMCP (if m = ''quick'' then ''--quick'' else [])"
  obtain r st2 where e: "exec os ?c (log (LogRunningMCP m) st) = (r, st2)" by fastforce
  have r: "r = fst (execSync os (cwd st) ?c (world st))"
    using e by (auto simp: exec_def split: prod.splits)
  have n: "newCalls st st2 = [(cwd st, ?c, r)]"
    using exec_calls [OF e] by simp
  have "runMCPMonitoring os m st =
      (case ifTruthy r of
         Some x \<Rightarrow> (\<lparr>success = True, data = Some x, error = None\<rparr>, log LogMCPCompleted st2)
       | None \<Rightarrow> (\<lparr>success = False, data = None, error = Some ''No data returned''\<rparr>,
                   log LogMCPNoData st2))"
    using True e by (simp add: runMCPMonitoring_def Let_def)
  then show ?thesis
    using True n r exec_fields [OF e] by (auto split: option.splits)
qed

lemma logStuck_fields [simp]:
  "trace (logStuck ss st) = trace st" "cwd (logStuck ss st) = cwd st"
  "world (logStuck ss st) = world st"
  by (induction ss arbitrary: st) simp_all

lemma detectSessions_props:
  "cwd (snd (detectSessions os ls acc st)) = cwd st \<and>
   prefix (trace st) (trace (snd (detectSessions os ls acc st))) \<and>
   alerts (newCalls st (snd (detectSessions os ls acc st))) = [] \<and>
   injections s (newCalls st (snd (detectSessions os ls acc st))) = []"
proof (induction ls arbitrary: acc st)
  case Nil
  then show ?case by simp
next
  case (Cons l ls)
  obtain r st1 where e: "exec os (TmuxCapturePane (sessionNameOf l)) st = (r, st1)" by fastforce
  let ?acc = "matchPatterns r (sessionNameOf l) stuckPatterns acc"
  note IH = Cons.IH [of ?acc st1]
  have p: "prefix (trace st) (trace st1)" by (rule exec_prefix [OF e])
  have n: "newCalls st (snd (detectSessions os ls ?acc st1)) =
      newCalls st st1 @ newCalls st1 (snd (detectSessions os ls ?acc st1))"
    using newCalls_trans [OF p] IH by blast
  have pp: "prefix (trace st) (trace (snd (detectSessions os ls ?acc st1)))"
    using p IH prefix_order.trans by blast
  have s: "detectSessions os (l # ls) acc st = detectSessions os ls ?acc st1"
    using e by simp
  show ?case
    unfolding s using IH n pp exec_calls [OF e] exec_fields(1) [OF e] by simp
qed

lemma detect_props:
  "cwd (snd (detectStuckPrompts os st)) = cwd st \<and>
   prefix (trace st) (trace (snd (detectStuckPrompts os st))) \<and>
   alerts (newCalls st (snd (detectStuckPrompts os st))) = [] \<and>
   injections s (newCalls st (snd (detectStuckPrompts os st))) = []"
proof -
  obtain t st1 where e: "exec os TmuxListSessions (log LogDetecting st) = (t, st1)" by fastforce
  have p: "prefix (trace st) (trace st1)" using exec_prefix [OF e] by simp
  have n: "newCalls st st1 = [(cwd st, TmuxListSessions, t)]" using exec_calls [OF e] by simp
  have c: "cwd st1 = cwd st" using exec_fields [OF e] by simp
  show ?thesis
  proof (cases "ifTruthy t")
    case None
    then show ?thesis using e p n c by (simp add: detectStuckPrompts_def)
  next
    case (Some l)
    obtain ss st2 where d: "detectSessions os (js_split newline l) [] st1 = (ss, st2)" by fastforce
    from detectSessions_props [of os "js_split newline l" "[]" st1 s] d
    have q: "cwd st2 = cwd st1" "prefix (trace st1) (trace st2)" "alerts (newCalls st1 st2) = []"
      "injections s (newCalls st1 st2) = []"
      by simp_all
    have "newCalls st st2 = newCalls st st1 @ newCalls st1 st2"
      by (rule newCalls_trans [OF p q(2)])
    with n q have a: "alerts (newCalls st st2) = []" "injections s (newCalls st st2) = []"
      by simp_all
    have pp: "prefix (trace st) (trace st2)" using p q(2) by (rule prefix_order.trans)
    have nl: "newCalls st (logStuck ss (log (LogFoundStuck (length ss)) st2)) = newCalls st st2"
      by (simp add: newCalls_def)
    show ?thesis
      using e Some d a pp c q(1) nl by (simp add: detectStuckPrompts_def)
  qed
qed

lemma sendAlert_props:
  "cwd (sendTokenWasteAlert os e ss st) = cwd st \<and>
   prefix (trace st) (trace (sendTokenWasteAlert os e ss st)) \<and>
   alerts (newCalls st (sendTokenWasteAlert os e ss st)) =
     (if ss \<noteq> [] \<and> existsSync os (cwd st) e
      then [map (\<lambda>s. (session s, pattern s)) ss] else [])"
proof (cases "ss \<noteq> [] \<and> existsSync os (cwd st) e")
  case False
  then show ?thesis by (auto simp: sendTokenWasteAlert_def Let_def)
next
  case True
  let ?c = "NodeQuickEmail (map (\<lambda>s. (session s, pattern s)) ss)"
  obtain r st2 where x: "exec os ?c (log LogSendingAlert st) = (r, st2)" by fastforce
  have "sendTokenWasteAlert os e ss st = log LogAlertSent st2"
    using True x by (simp add: sendTokenWasteAlert_def Let_def)
  then show ?thesis
    using True exec_calls [OF x] exec_fields [OF x] exec_prefix [OF x] by simp
qed

lemma setProperty_distinct:
  "distinct (map fst pd) \<Longrightarrow> distinct (map fst (setProperty n e pd))"
  by (simp add: setProperty_def distinct_update)

lemma setProperty_keys:
  "set (map fst (setProperty n e pd)) =
     set (map fst pd) \<union> (if n = ''__proto__'' then {} else {n})"
  by (auto simp: setProperty_def update_keys dom_update simp del: set_map)

lemma setProperty_lookup:
  "n \<noteq> ''__proto__'' \<Longrightarrow> map_of (setProperty n e pd) n = Some e"
  by (simp add: setProperty_def update_conv')

lemma checkProject_missing:
  "\<not> existsSync os (cwd st) p \<Longrightarrow>
     checkProject os n p pd st = (pd, log (LogPathNotFound n) st)"
  by (simp add: checkProject_def)

lemma checkProject_chdir_fails:
  "existsSync os (cwd st) p \<Longrightarrow> chdir os (cwd st) p = Inl msg \<Longrightarrow>
     checkProject os n p pd st =
       (setProperty n (GitError (ChdirFailed msg)) pd, log (LogGitError n) st)"
  by (simp add: checkProject_def)

lemma checkProject_inspects:
  assumes "existsSync os (cwd st) p" and "chdir os (cwd st) p = Inr dir"
  shows "\<exists>lc uc br e st'.
           checkProject os n p pd st = (setProperty n e pd, st') \<and>
           cwd st' = dir \<and>
           trace st' = trace st @ [(dir, GitLog, lc), (dir, GitStatus, uc), (dir, GitBranch, br)]"
proof -
  obtain lc st1 where e1: "exec os GitLog (st\<lparr>cwd := dir\<rparr>) = (lc, st1)" by fastforce
  obtain uc st2 where e2: "exec os GitStatus st1 = (uc, st2)" by fastforce
  obtain br st3 where e3: "exec os GitBranch st2 = (br, st3)" by fastforce
  have c: "cwd st1 = dir" "cwd st2 = dir" "cwd st3 = dir"
    using e1 e2 e3 by (simp_all add: exec_fields)
  have t: "trace st3 = trace st @ [(dir, GitLog, lc), (dir, GitStatus, uc), (dir, GitBranch, br)]"
    using e1 e2 e3 c by (simp add: exec_fields)
  show ?thesis
    using assms e1 e2 e3 c t
    by (auto simp: checkProject_def Let_def split: option.splits list.splits)
qed

lemma checkProject_cases:
  "\<exists>e st'. checkProject os n p pd st =
        (if existsSync os (cwd st) p then setProperty n e pd else pd, st') \<and>
      cwd st' = enter os (cwd st) p \<and>
      prefix (trace st) (trace st') \<and>
      map (\<lambda>(d, c, r). (d, c)) (newCalls st st') =
        concat (map inspections (entered os [(n, p, cwd st)]))"
proof (cases "existsSync os (cwd st) p")
  case False
  then show ?thesis by (simp add: checkProject_missing enter_def entered_def)
next
  case True
  show ?thesis
  proof (cases "chdir os (cwd st) p")
    case (Inl msg)
    with True show ?thesis by (auto simp: checkProject_chdir_fails enter_def entered_def)
  next
    case (Inr dir)
    from checkProject_inspects [OF True Inr, of n pd]
    obtain lc uc br e st' where
      "checkProject os n p pd st = (setProperty n e pd, st')" "cwd st' = dir"
      "trace st' = trace st @ [(dir, GitLog, lc), (dir, GitStatus, uc), (dir, GitBranch, br)]"
      by blast
    with True Inr show ?thesis
      by (auto simp: newCalls_def enter_def entered_def inspections_def)
  qed
qed

lemma entered_Cons:
  "entered os ((n, p, d) # vs) = entered os [(n, p, d)] @ entered os vs"
  by (simp add: entered_def)

lemma last_entered_step:
  "last (enter os d p # xs) = last (d # entered os [(n, p, d)] @ xs)"
  by (auto simp: enter_def entered_def split: sum.splits)

lemma keys_step:
  assumes "b = P c p"
  shows "A \<union> (if b \<and> n \<noteq> x then {n} else {}) \<union>
           {m. m \<noteq> x \<and> (\<exists>q d. (m, q, d) \<in> set V \<and> P d q)} =
         A \<union> {m. m \<noteq> x \<and> (\<exists>q d. (m, q, d) \<in> set ((n, p, c) # V) \<and> P d q)}"
  using assms by auto

lemma checkProjects_props:
  "distinct (map fst pd) \<Longrightarrow>
   distinct (map fst (fst (checkProjects os ps pd st))) \<and>
   set (map fst (fst (checkProjects os ps pd st))) =
     set (map fst pd) \<union>
     {n. n \<noteq> ''__proto__'' \<and>
         (\<exists>p d. (n, p, d) \<in> set (visits os ps (cwd st)) \<and> existsSync os d p)} \<and>
   cwd (snd (checkProjects os ps pd st)) = last (cwd st # entered os (visits os ps (cwd st))) \<and>
   prefix (trace st) (trace (snd (checkProjects os ps pd st))) \<and>
   map (\<lambda>(d, c, r). (d, c)) (newCalls st (snd (checkProjects os ps pd st))) =
     concat (map inspections (entered os (visits os ps (cwd st))))"
proof (induction ps arbitrary: pd st)
  case Nil
  then show ?case by (simp add: entered_def)
next
  case (Cons a ps)
  obtain n p where a: "a = (n, p)" by fastforce
  from checkProject_cases [of os n p pd st] obtain e st' where
    cp: "checkProject os n p pd st =
          (if existsSync os (cwd st) p then setProperty n e pd else pd, st')"
    and cw: "cwd st' = enter os (cwd st) p"
    and pr: "prefix (trace st) (trace st')"
    and cl: "map (\<lambda>(d, c, r). (d, c)) (newCalls st st') =
        concat (map inspections (entered os [(n, p, cwd st)]))"
    by blast
  let ?pd' = "if existsSync os (cwd st) p then setProperty n e pd else pd"
  let ?vs = "visits os ps (enter os (cwd st) p)"
  have d: "distinct (map fst ?pd')" using Cons.prems by (simp add: setProperty_distinct)
  note IH = Cons.IH [OF d, of st']
  have step: "checkProjects os (a # ps) pd st = checkProjects os ps ?pd' st'"
    using a cp by simp
  have vis: "visits os (a # ps) (cwd st) = (n, p, cwd st) # ?vs"
    using a by simp
  have keys: "set (map fst ?pd') =
      set (map fst pd) \<union> (if existsSync os (cwd st) p \<and> n \<noteq> ''__proto__'' then {n} else {})"
    by (auto simp: setProperty_keys simp del: set_map)
  from IH have IH1: "distinct (map fst (fst (checkProjects os ps ?pd' st')))"
    and IH2: "set (map fst (fst (checkProjects os ps ?pd' st'))) =
       set (map fst ?pd') \<union>
       {m. m \<noteq> ''__proto__'' \<and>
           (\<exists>q d. (m, q, d) \<in> set (visits os ps (cwd st')) \<and> existsSync os d q)}"
    and IH3: "cwd (snd (checkProjects os ps ?pd' st')) =
       last (cwd st' # entered os (visits os ps (cwd st')))"
    and IH4: "prefix (trace st') (trace (snd (checkProjects os ps ?pd' st')))"
    and IH5: "map (\<lambda>(d, c, r). (d, c)) (newCalls st' (snd (checkProjects os ps ?pd' st'))) =
       concat (map inspections (entered os (visits os ps (cwd st'))))"
    by blast+
  have 2: "set (map fst (fst (checkProjects os ps ?pd' st'))) =
     set (map fst pd) \<union>
     {m. m \<noteq> ''__proto__'' \<and>
         (\<exists>q d. (m, q, d) \<in> set ((n, p, cwd st) # ?vs) \<and> existsSync os d q)}"
    unfolding IH2 keys cw by (rule keys_step) simp
  have "cwd (snd (checkProjects os ps ?pd' st')) = last (enter os (cwd st) p # entered os ?vs)"
    unfolding IH3 cw ..
  also have "\<dots> = last (cwd st # entered os [(n, p, cwd st)] @ entered os ?vs)"
    by (rule last_entered_step)
  also have "\<dots> = last (cwd st # entered os ((n, p, cwd st) # ?vs))"
    by (simp only: entered_Cons [of os n p "cwd st" ?vs])
  finally have 3: "cwd (snd (checkProjects os ps ?pd' st')) =
      last (cwd st # entered os ((n, p, cwd st) # ?vs))" .
  have 4: "prefix (trace st) (trace (snd (checkProjects os ps ?pd' st')))"
    using pr IH4 by (rule prefix_order.trans)
  have "map (\<lambda>(d, c, r). (d, c)) (newCalls st (snd (checkProjects os ps ?pd' st'))) =
      map (\<lambda>(d, c, r). (d, c)) (newCalls st st') @
      map (\<lambda>(d, c, r). (d, c)) (newCalls st' (snd (checkProjects os ps ?pd' st')))"
    unfolding newCalls_trans [OF pr IH4] by (rule map_append)
  also have "\<dots> = concat (map inspections (entered os [(n, p, cwd st)])) @
      concat (map inspections (entered os ?vs))"
    unfolding cl IH5 cw ..
  also have "\<dots> = concat (map inspections (entered os ((n, p, cwd st) # ?vs)))"
    by (simp only: entered_Cons [of os n p "cwd st" ?vs] map_append concat_append)
  finally have 5: "map (\<lambda>(d, c, r). (d, c)) (newCalls st (snd (checkProjects os ps ?pd' st'))) =
     concat (map inspections (entered os ((n, p, cwd st) # ?vs)))" .
  show ?case
    unfolding step vis using IH1 2 3 4 5 by blast
qed

lemma alerts_git_only:
  "\<forall>x \<in> set calls. fst (snd x) \<in> {GitLog, GitStatus, GitBranch} \<Longrightarrow> alerts calls = []"
  by (induction calls) auto

lemma alerts_of_inspections:
  assumes "map (\<lambda>(d, c, r). (d, c)) calls = concat (map inspections ds)"
  shows "alerts calls = []"
proof -
  have "map (fst \<circ> snd) calls = map snd (map (\<lambda>(d, c, r). (d, c)) calls)"
    by (simp add: case_prod_unfold comp_def)
  also have "set \<dots> \<subseteq> {GitLog, GitStatus, GitBranch}"
    unfolding assms by (auto simp: inspections_def)
  finally have "\<forall>x \<in> set calls. fst (snd x) \<in> {GitLog, GitStatus, GitBranch}"
    by auto
  then show ?thesis by (rule alerts_git_only)
qed

lemma checkGit_rejects [simp]:
  "checkGitProgress os None st = (Inl RegistryNotLoaded, log LogCheckingGit st)"
  by (simp add: checkGitProgress_def)

lemma checkGit_props:
  "\<exists>g st'. checkGitProgress os (Some ps) st = (Inr g, st') \<and>
     distinct (map fst g) \<and>
     set (map fst g) =
       {n. n \<noteq> ''__proto__'' \<and>
           (\<exists>p d. (n, p, d) \<in> set (visits os ps (cwd st)) \<and> existsSync os d p)} \<and>
     cwd st' = last (cwd st # entered os (visits os ps (cwd st))) \<and>
     prefix (trace st) (trace st') \<and>
     map (\<lambda>(d, c, r). (d, c)) (newCalls st st') =
       concat (map inspections (entered os (visits os ps (cwd st)))) \<and>
     alerts (newCalls st st') = []"
proof -
  obtain g st' where c: "checkProjects os ps [] (log LogCheckingGit st) = (g, st')"
    by fastforce
  from checkProjects_props [of "[]" os ps "log LogCheckingGit st"] c
  have p: "distinct (map fst g)"
    "set (map fst g) =
       {n. n \<noteq> ''__proto__'' \<and>
           (\<exists>p d. (n, p, d) \<in> set (visits os ps (cwd st)) \<and> existsSync os d p)}"
    "cwd st' = last (cwd st # entered os (visits os ps (cwd st)))"
    "prefix (trace st) (trace st')"
    "map (\<lambda>(d, c, r). (d, c)) (newCalls st st') =
       concat (map inspections (entered os (visits os ps (cwd st))))"
    by simp_all
  from alerts_of_inspections [OF p(5)] have "alerts (newCalls st st') = []" .
  with p c show ?thesis by (simp add: checkGitProgress_def)
qed

lemma checkGit_general:
  "cwd (snd (checkGitProgress os reg st)) =
     (case reg of None \<Rightarrow> cwd st
      | Some ps \<Rightarrow> last (cwd st # entered os (visits os ps (cwd st)))) \<and>
   prefix (trace st) (trace (snd (checkGitProgress os reg st))) \<and>
   alerts (newCalls st (snd (checkGitProgress os reg st))) = [] \<and>
   ((\<exists>g. fst (checkGitProgress os reg st) = Inr g) \<longleftrightarrow> reg \<noteq> None)"
proof (cases reg)
  case None
  then show ?thesis by simp
next
  case (Some ps)
  from checkGit_props [of os ps st] Some show ?thesis by auto
qed

text \<open>The phases of the full run, in the order the script runs them.\<close>

lemma report_rejects:
  assumes "runMCPMonitoring os ''detailed'' (log LogGenerating st) = (m, st1)"
  shows "generateMonitoringReport os e None st =
           (Inl RegistryNotLoaded, log LogCheckingGit st1)"
  using assms by (simp add: generateMonitoringReport_def)

lemma report_phases:
  assumes "runMCPMonitoring os ''detailed'' (log LogGenerating st) = (m, st1)"
    and "checkGitProgress os reg st1 = (Inr g, st2)"
    and "detectStuckPrompts os st2 = (ss, st3)"
  shows "generateMonitoringReport os e reg st =
           (case saveReport os of
              Some msg \<Rightarrow> Inl (ReportNotSaved msg)
            | None \<Rightarrow>
                Inr \<lparr>rep_mcp = m, rep_gitProgress = g, rep_stuckSessions = ss,
                     rep_summary =
                       \<lparr>projectsChecked = length g, stuckPrompts = length ss,
                        mcpStatus = (if success m then Operational else StatusError),
                        overallHealth =
                          (if ss = [] \<and> success m then Excellent else NeedsAttention)\<rparr>\<rparr>,
            if ss = [] then st3
            else sendTokenWasteAlert os e ss (autoFixStuckPrompts os ss st3))"
  using assms by (simp add: generateMonitoringReport_def Let_def split: option.splits)

lemma report_none_props:
  "cwd (snd (generateMonitoringReport os e None st)) = cwd st \<and>
   prefix (trace st) (trace (snd (generateMonitoringReport os e None st))) \<and>
   alerts (newCalls st (snd (generateMonitoringReport os e None st))) = []"
proof -
  obtain m st1 where a: "runMCPMonitoring os ''detailed'' (log LogGenerating st) = (m, st1)"
    by fastforce
  from runMCP_props [of os "''detailed''" "log LogGenerating st"] a
  have "cwd st1 = cwd st" "prefix (trace st) (trace st1)" "alerts (newCalls st st1) = []"
    by simp_all
  then show ?thesis
    unfolding report_rejects [OF a] by simp
qed

lemma report_props:
  assumes a: "runMCPMonitoring os ''detailed'' (log LogGenerating st) = (m, st1)"
    and b: "checkGitProgress os (Some ps) st1 = (Inr g, st2)"
    and c: "detectStuckPrompts os st2 = (ss, st3)"
  shows "cwd (snd (generateMonitoringReport os e (Some ps) st)) =
           last (cwd st # entered os (visits os ps (cwd st)))"
    and "prefix (trace st) (trace (snd (generateMonitoringReport os e (Some ps) st)))"
    and "alerts (newCalls st (snd (generateMonitoringReport os e (Some ps) st))) =
           (if ss \<noteq> [] \<and>
               existsSync os (cwd (snd (generateMonitoringReport os e (Some ps) st))) e
            then [map (\<lambda>s. (session s, pattern s)) ss] else [])"
    and "\<forall>x \<in> set ss.
           injections (session x)
             (newCalls st (snd (generateMonitoringReport os e (Some ps) st))) \<noteq> []"
proof -
  let ?st4 = "autoFixStuckPrompts os ss st3"
  let ?st5 = "sendTokenWasteAlert os e ss ?st4"
  from runMCP_props [of os "''detailed''" "log LogGenerating st"] a
  have 1: "cwd st1 = cwd st" "prefix (trace st) (trace st1)" "alerts (newCalls st st1) = []"
    by simp_all
  from checkGit_props [of os ps st1] b
  have 2: "cwd st2 = last (cwd st1 # entered os (visits os ps (cwd st1)))"
    "prefix (trace st1) (trace st2)" "alerts (newCalls st1 st2) = []"
    by simp_all
  from detect_props [of os st2] c
  have 3: "cwd st3 = cwd st2" "prefix (trace st2) (trace st3)" "alerts (newCalls st2 st3) = []"
    by simp_all
  have 4: "cwd ?st4 = cwd st3" "prefix (trace st3) (trace ?st4)"
    "alerts (newCalls st3 ?st4) = []"
    by (simp_all add: autoFix_prefix)
  from sendAlert_props [of os e ss ?st4]
  have 5: "cwd ?st5 = cwd ?st4" "prefix (trace ?st4) (trace ?st5)"
    "alerts (newCalls ?st4 ?st5) =
       (if ss \<noteq> [] \<and> existsSync os (cwd ?st4) e
        then [map (\<lambda>s. (session s, pattern s)) ss] else [])"
    by simp_all
  have p2: "prefix (trace st) (trace st2)" using 1(2) 2(2) by (rule prefix_order.trans)
  have p3: "prefix (trace st) (trace st3)" using p2 3(2) by (rule prefix_order.trans)
  have p4: "prefix (trace st) (trace ?st4)" using p3 4(2) by (rule prefix_order.trans)
  have p5: "prefix (trace st) (trace ?st5)" using p4 5(2) by (rule prefix_order.trans)
  have n2: "alerts (newCalls st st2) = []"
    using newCalls_trans [OF 1(2) 2(2)] 1(3) 2(3) by simp
  have n3: "alerts (newCalls st st3) = []"
    using newCalls_trans [OF p2 3(2)] n2 3(3) by simp
  have n4: "alerts (newCalls st ?st4) = []"
    using newCalls_trans [OF p3 4(2)] n3 4(3) by simp
  have n5: "alerts (newCalls st ?st5) =
       (if ss \<noteq> [] \<and> existsSync os (cwd ?st4) e
        then [map (\<lambda>s. (session s, pattern s)) ss] else [])"
    using newCalls_trans [OF p4 5(2)] n4 5(3) by simp
  have fin: "snd (generateMonitoringReport os e (Some ps) st) = (if ss = [] then st3 else ?st5)"
    unfolding report_phases [OF a b c] by simp
  have cw: "cwd (if ss = [] then st3 else ?st5) = last (cwd st # entered os (visits os ps (cwd st)))"
    using 1(1) 2(1) 3(1) 4(1) 5(1) by simp
  show "cwd (snd (generateMonitoringReport os e (Some ps) st)) =
           last (cwd st # entered os (visits os ps (cwd st)))"
    unfolding fin by (rule cw)
  show "prefix (trace st) (trace (snd (generateMonitoringReport os e (Some ps) st)))"
    unfolding fin using p3 p5 by simp
  have c4: "cwd ?st4 = cwd (if ss = [] then st3 else ?st5)"
    using 4(1) 5(1) by simp
  show "alerts (newCalls st (snd (generateMonitoringReport os e (Some ps) st))) =
           (if ss \<noteq> [] \<and>
               existsSync os (cwd (snd (generateMonitoringReport os e (Some ps) st))) e
            then [map (\<lambda>s. (session s, pattern s)) ss] else [])"
    unfolding fin c4 [symmetric] using n3 n5 by simp
  show "\<forall>x \<in> set ss.
           injections (session x)
             (newCalls st (snd (generateMonitoringReport os e (Some ps) st))) \<noteq> []"
  proof
    fix x assume x: "x \<in> set ss"
    then have ne: "ss \<noteq> []" by auto
    from autoFix_each [OF x, of st3 os]
    have i: "injections (session x) (newCalls st3 ?st4) \<noteq> []" by auto
    have "newCalls st ?st5 = newCalls st st3 @ newCalls st3 ?st4 @ newCalls ?st4 ?st5"
      using newCalls_trans [OF p3 prefix_order.trans [OF 4(2) 5(2)]]
        newCalls_trans [OF 4(2) 5(2)] by simp
    with i have "injections (session x) (newCalls st ?st5) \<noteq> []" by simp
    with ne show "injections (session x)
        (newCalls st (snd (generateMonitoringReport os e (Some ps) st))) \<noteq> []"
      unfolding fin by simp
  qed
qed

lemma autoFixUntilFirstAwait_props:
  "prefix (trace st) (trace (autoFixUntilFirstAwait os ss st)) \<and>
   alerts (newCalls st (autoFixUntilFirstAwait os ss st)) = []"
proof (cases ss)
  case Nil
  then show ?thesis by (simp add: autoFixUntilFirstAwait_def)
next
  case (Cons x rest)
  let ?st = "log (LogAttemptFix (session x)) (log LogAutoFixStart st)"
  obtain r st1 where e: "exec os (TmuxSendKeys (session x) ''y'') ?st = (r, st1)" by fastforce
  have "autoFixUntilFirstAwait os ss st = st1"
    using Cons e by (simp add: autoFixUntilFirstAwait_def fixes_list_def)
  then show ?thesis
    using exec_calls [OF e] exec_prefix [OF e] by simp
qed

lemma main_alerts:
  "alerts (newCalls st (snd (main os e reg args st))) =
     (if modeOf args \<in> {''quick'', ''git'', ''stuck''} then []
      else alerts (newCalls st (snd (generateMonitoringReport os e reg st))))"
proof -
  have q: "alerts (newCalls st (snd (runMCPMonitoring os ''quick'' st))) = []"
    using runMCP_props [of os "''quick''" st] by simp
  have g: "alerts (newCalls st (snd (checkGitProgress os reg st))) = []"
    using checkGit_general [of os reg st] by simp
  obtain ss st1 where d: "detectStuckPrompts os st = (ss, st1)" by fastforce
  from detect_props [of os st] d
  have 1: "prefix (trace st) (trace st1)" "alerts (newCalls st st1) = []" by simp_all
  from autoFixUntilFirstAwait_props [of st1 os ss]
  have 2: "prefix (trace st1) (trace (autoFixUntilFirstAwait os ss st1))"
    "alerts (newCalls st1 (autoFixUntilFirstAwait os ss st1)) = []" by simp_all
  have s: "alerts (newCalls st (autoFixUntilFirstAwait os ss st1)) = []"
    using newCalls_trans [OF 1(1) 2(1)] 1(2) 2(2) by simp
  show ?thesis
    using q g d 1(2) s
    by (auto simp: main_def Let_def split: prod.splits sum.splits)
qed

lemma matchPatterns_first:
  assumes "ifTruthy screenContent = Some c"
    and "patterns = earlier @ p # later"
    and "js_includes c p"
    and "\<forall>q \<in> set earlier. \<not> js_includes c q"
  shows "matchPatterns screenContent sessionName patterns stuckSessions =
           stuckSessions @
             [\<lparr>session = sessionName, pattern = p,
               content = js_join newline (slice_last 5 (js_split newline c))\<rparr>]"
  using assms
proof (induction earlier arbitrary: patterns)
  case Nil
  then show ?case by simp
next
  case (Cons q earlier)
  from Cons.prems have "\<not> js_includes c q" by simp
  moreover have "matchPatterns screenContent sessionName (earlier @ p # later) stuckSessions =
      stuckSessions @
        [\<lparr>session = sessionName, pattern = p,
          content = js_join newline (slice_last 5 (js_split newline c))\<rparr>]"
    using Cons.prems by (intro Cons.IH) simp_all
  ultimately show ?case using Cons.prems by simp
qed

section \<open>Detection\<close>

text \<open>
  Claim C4. When two or more patterns occur in the captured content, the session is
  recorded with the earliest of them in list order, and the loop over the patterns stops
  there: whatever the later patterns are, exactly one entry is appended, and it carries the
  first pattern that occurs. This holds for every list of patterns whose first match is
  not the empty string; the patterns of \<open>stuckPatterns\<close> are all non-empty.
\<close>

theorem first_matching_pattern_wins:
  assumes "screenContent = Some c"
    and "patterns = earlier @ p # later"
    and "js_includes c p"
    and "p \<noteq> []"
    and "\<forall>q \<in> set earlier. \<not> js_includes c q"
  shows "matchPatterns screenContent sessionName patterns stuckSessions =
           stuckSessions @
             [\<lparr>session = sessionName, pattern = p,
               content = js_join newline (slice_last 5 (js_split newline c))\<rparr>]"
proof -
  from assms(3,4) have "c \<noteq> []" by (auto simp: js_includes_def)
  with assms(1) have "ifTruthy screenContent = Some c" by (simp add: ifTruthy_def)
  then show ?thesis using assms(2,3,5) by (rule matchPatterns_first)
qed

text \<open>
  A capture that shows the fifth and the ninth pattern of \<open>stuckPatterns\<close> is recorded
  with the fifth.
\<close>

theorem first_matching_pattern_wins_witness:
  \<open>js_includes ''Continue? (y/n) Please confirm'' ''Continue? (y/n)'' \<and>
   js_includes ''Continue? (y/n) Please confirm'' ''Please confirm'' \<and>
   matchPatterns (Some ''Continue? (y/n) Please confirm'') ''main'' stuckPatterns [] =
     [\<lparr>session = ''main'', pattern = ''Continue? (y/n)'',
       content = ''Continue? (y/n) Please confirm''\<rparr>]\<close>
proof -
  let ?c = "''Continue? (y/n) Please confirm''"
  have h1: "Some ?c = Some ?c" by simp
  have h0: "''Continue? (y/n)'' \<noteq> []" by simp
  have h2: \<open>stuckPatterns =
      [''Do you want to proceed?'', ''Press any key to continue'', ''Waiting for user input'',
       ''Type "y" to confirm''] @
      ''Continue? (y/n)'' #
      [''Approval required'', ''Enter to continue'', ''Would you like to'', ''Please confirm'',
       ''Proceed with'']\<close>
    by (simp add: stuckPatterns_def)
  have h3: "js_includes ?c ''Continue? (y/n)''" by code_simp
  have h4: \<open>\<forall>q \<in> set [''Do you want to proceed?'', ''Press any key to continue'',
      ''Waiting for user input'', ''Type "y" to confirm'']. \<not> js_includes ?c q\<close>
    by code_simp
  have h5: "js_includes ?c ''Please confirm''" by code_simp
  have h6: "js_join newline (slice_last 5 (js_split newline ?c)) = ?c" by code_simp
  from first_matching_pattern_wins [OF h1 h2 h3 h0 h4, of "''main''" "[]"] h3 h5 h6
  show ?thesis by simp
qed

text \<open>
  Claim C5 says that a failed or empty capture is classified Unknown and is never
  conflated with a healthy session. The script has no such outcome: a session is either
  pushed to \<^verbatim>\<open>stuckSessions\<close> or left out. The run in which the capture of the only
  session fails produces the same report as the run in which the pane shows ordinary
  output, with no stuck session and health \<^verbatim>\<open>excellent\<close>.
\<close>

theorem capture_failure_reported_as_healthy:
  "fst (generateMonitoringReport (os_capture None) emailJs (Some []) start) =
     fst (generateMonitoringReport (os_capture (Some ''Compiling 12 files'')) emailJs (Some [])
            start)
   \<and> fst (generateMonitoringReport (os_capture None) emailJs (Some []) start) =
       Inr \<lparr>rep_mcp = \<lparr>success = True, data = Some ''all agents healthy'', error = None\<rparr>,
            rep_gitProgress = [], rep_stuckSessions = [],
            rep_summary =
              \<lparr>projectsChecked = 0, stuckPrompts = 0, mcpStatus = Operational,
               overallHealth = Excellent\<rparr>\<rparr>"
proof -
  have a: "fst (generateMonitoringReport (os_capture None) emailJs (Some []) start) =
       Inr \<lparr>rep_mcp = \<lparr>success = True, data = Some ''all agents healthy'', error = None\<rparr>,
            rep_gitProgress = [], rep_stuckSessions = [],
            rep_summary =
              \<lparr>projectsChecked = 0, stuckPrompts = 0, mcpStatus = Operational,
               overallHealth = Excellent\<rparr>\<rparr>"
    by code_simp
  have b: "fst (generateMonitoringReport (os_capture (Some ''Compiling 12 files'')) emailJs
                  (Some []) start) =
       Inr \<lparr>rep_mcp = \<lparr>success = True, data = Some ''all agents healthy'', error = None\<rparr>,
            rep_gitProgress = [], rep_stuckSessions = [],
            rep_summary =
              \<lparr>projectsChecked = 0, stuckPrompts = 0, mcpStatus = Operational,
               overallHealth = Excellent\<rparr>\<rparr>"
    by code_simp
  from a b show ?thesis by simp
qed

text \<open>
  Claim C5 as amended: a session whose capture fails or is empty is never recorded as
  stuck, and it is left out of \<^verbatim>\<open>stuckSessions\<close> exactly as a session is whose
  content includes none of the patterns. The loop over the patterns appends nothing if and
  only if the capture is falsy or no pattern occurs in it.
\<close>

theorem no_entry_iff_unreadable_or_unmatched:
  "matchPatterns screenContent sessionName patterns stuckSessions = stuckSessions \<longleftrightarrow>
     (ifTruthy screenContent = None \<or>
      (\<exists>c. ifTruthy screenContent = Some c \<and> (\<forall>p \<in> set patterns. \<not> js_includes c p)))"
  by (induction patterns) (auto split: option.splits)

theorem no_entry_iff_unreadable_or_unmatched_witness:
  "ifTruthy None = None \<and> ifTruthy (Some []) = None \<and>
   matchPatterns None ''main'' stuckPatterns [] = [] \<and>
   matchPatterns (Some []) ''main'' stuckPatterns [] = []"
  using no_entry_iff_unreadable_or_unmatched [of None "''main''" stuckPatterns "[]"]
    no_entry_iff_unreadable_or_unmatched [of "Some []" "''main''" stuckPatterns "[]"]
  by (simp add: ifTruthy_def)


section \<open>Recovery\<close>

text \<open>
  Claim C6. An attempt is one injection followed by one re-capture. The loop for a stuck
  session makes as many injections as re-captures, at most one for each of the five
  fallback inputs and in their order, and every re-capture but the last still showed the
  pattern: once a re-capture resolves the session, no further attempt is made. Over a whole
  call of \<open>autoFixStuckPrompts\<close>, a session name receives at most five injections for
  each entry that carries it.
\<close>

theorem attempts_bounded_and_short_circuit:
  "injections (session stuck) (newCalls st (tryFixes os stuck fixes_list st)) =
     take (length (recaptures (session stuck) (newCalls st (tryFixes os stuck fixes_list st))))
       fixes_list
   \<and> length (injections (session stuck) (newCalls st (tryFixes os stuck fixes_list st))) =
       length (recaptures (session stuck) (newCalls st (tryFixes os stuck fixes_list st)))
   \<and> length (injections (session stuck) (newCalls st (tryFixes os stuck fixes_list st))) \<le>
       length fixes_list
   \<and> length fixes_list = 5
   \<and> (\<forall>r \<in> set (butlast
          (recaptures (session stuck) (newCalls st (tryFixes os stuck fixes_list st)))).
         stillStuck (pattern stuck) r)
   \<and> length (injections s (newCalls st' (autoFixStuckPrompts os stuckSessions st'))) \<le>
       length fixes_list * count_list (map session stuckSessions) s"
proof -
  let ?rs = "recaptures (session stuck) (newCalls st (tryFixes os stuck fixes_list st))"
  let ?is = "injections (session stuck) (newCalls st (tryFixes os stuck fixes_list st))"
  from tryFixes_attempts [of stuck st os fixes_list]
  have a: "?is = take (length ?rs) fixes_list" and b: "length ?rs \<le> length fixes_list"
    and c: "\<forall>r \<in> set (butlast ?rs). stillStuck (pattern stuck) r"
    by blast+
  from a b have d: "length ?is = length ?rs"
    by (metis length_take min.absorb2)
  have e: "length fixes_list = 5" by (simp add: fixes_list_def)
  from a b c d e autoFix_bound [of s st' os stuckSessions] show ?thesis
    by presburger
qed

text \<open>
  In a world where the prompt goes away after the second input, the loop makes two
  attempts: the first re-capture is still stuck, the second is not.
\<close>

theorem attempts_bounded_and_short_circuit_witness:
  "injections ''main'' (newCalls start (tryFixes (os_prompt 2) stuck_proceed fixes_list start)) =
     [''y'', ''yes'']
   \<and> recaptures ''main'' (newCalls start (tryFixes (os_prompt 2) stuck_proceed fixes_list start)) =
     [Some ''Do you want to proceed? Please confirm'', Some ''done'']
   \<and> stillStuck ''Do you want to proceed?'' (Some ''Do you want to proceed? Please confirm'')
   \<and> \<not> stillStuck ''Do you want to proceed?'' (Some ''done'')"
proof -
  have s: "session stuck_proceed = ''main''" "pattern stuck_proceed = ''Do you want to proceed?''"
    by (simp_all add: stuck_proceed_def)
  have r: "recaptures ''main'' (newCalls start (tryFixes (os_prompt 2) stuck_proceed fixes_list start)) =
     [Some ''Do you want to proceed? Please confirm'', Some ''done'']"
    by code_simp
  have i: "injections ''main'' (newCalls start (tryFixes (os_prompt 2) stuck_proceed fixes_list start)) =
     [''y'', ''yes'']"
    by code_simp
  have n: "\<not> stillStuck ''Do you want to proceed?'' (Some ''done'')" by code_simp
  from attempts_bounded_and_short_circuit
         [where stuck = stuck_proceed and st = start and os = "os_prompt 2"] r i n
  show ?thesis by (simp add: s)
qed







lemma report_result:
  "\<exists>m st1. runMCPMonitoring os ''detailed'' (log LogGenerating st) = (m, st1) \<and>
     (case reg of
        None \<Rightarrow> fst (generateMonitoringReport os e reg st) = Inl RegistryNotLoaded
      | Some ps \<Rightarrow>
          (\<exists>g st2 ss st3.
             checkGitProgress os (Some ps) st1 = (Inr g, st2) \<and>
             detectStuckPrompts os st2 = (ss, st3) \<and>
             cwd st1 = cwd st \<and>
             fst (generateMonitoringReport os e reg st) =
               (case saveReport os of
                  Some msg \<Rightarrow> Inl (ReportNotSaved msg)
                | None \<Rightarrow>
                    Inr \<lparr>rep_mcp = m, rep_gitProgress = g, rep_stuckSessions = ss,
                         rep_summary =
                           \<lparr>projectsChecked = length g, stuckPrompts = length ss,
                            mcpStatus = (if success m then Operational else StatusError),
                            overallHealth =
                              (if ss = [] \<and> success m
                               then Excellent else NeedsAttention)\<rparr>\<rparr>)))"
proof -
  obtain m st1 where a: "runMCPMonitoring os ''detailed'' (log LogGenerating st) = (m, st1)"
    by fastforce
  have c1: "cwd st1 = cwd st"
    using runMCP_props [of os "''detailed''" "log LogGenerating st"] a by simp
  show ?thesis
  proof (cases reg)
    case None
    then show ?thesis using a report_rejects [OF a] by simp
  next
    case (Some ps)
    from checkGit_props [of os ps st1]
    obtain g st2 where b: "checkGitProgress os (Some ps) st1 = (Inr g, st2)" by blast
    obtain ss st3 where c: "detectStuckPrompts os st2 = (ss, st3)" by fastforce
    from report_phases [OF a b c, of e] Some a b c c1 show ?thesis by simp
  qed
qed

lemma report_produced:
  "(\<exists>r. fst (generateMonitoringReport os e reg st) = Inr r) \<longleftrightarrow>
     reg \<noteq> None \<and> saveReport os = None"
  using report_result [where os = os and st = st and reg = reg and e = e]
  by (cases reg; cases "saveReport os") auto

lemma report_error:
  "fst (generateMonitoringReport os e reg st) = Inl err \<longleftrightarrow>
     (reg = None \<and> err = RegistryNotLoaded) \<or>
     (reg \<noteq> None \<and> (\<exists>msg. saveReport os = Some msg \<and> err = ReportNotSaved msg))"
  using report_result [where os = os and st = st and reg = reg and e = e]
  by (cases reg; cases "saveReport os") auto

lemma report_git:
  assumes "fst (generateMonitoringReport os e (Some ps) st) = Inr r"
  shows "distinct (map fst (rep_gitProgress r))"
    and "set (map fst (rep_gitProgress r)) =
           {n. n \<noteq> ''__proto__'' \<and>
               (\<exists>p d. (n, p, d) \<in> set (visits os ps (cwd st)) \<and> existsSync os d p)}"
    and "projectsChecked (rep_summary r) = length (rep_gitProgress r)"
proof -
  from report_result [where os = os and st = st and reg = "Some ps" and e = e]
  obtain m st1 g st2 ss st3 where
    b: "checkGitProgress os (Some ps) st1 = (Inr g, st2)"
    and c1: "cwd st1 = cwd st"
    and f: "fst (generateMonitoringReport os e (Some ps) st) =
               (case saveReport os of
                  Some msg \<Rightarrow> Inl (ReportNotSaved msg)
                | None \<Rightarrow>
                    Inr \<lparr>rep_mcp = m, rep_gitProgress = g, rep_stuckSessions = ss,
                         rep_summary =
                           \<lparr>projectsChecked = length g, stuckPrompts = length ss,
                            mcpStatus = (if success m then Operational else StatusError),
                            overallHealth =
                              (if ss = [] \<and> success m
                               then Excellent else NeedsAttention)\<rparr>\<rparr>)"
    by auto
  from f assms have g: "rep_gitProgress r = g" "projectsChecked (rep_summary r) = length g"
    by (auto split: option.splits)
  from checkGit_props [of os ps st1] b c1
  have "distinct (map fst g)"
    "set (map fst g) =
       {n. n \<noteq> ''__proto__'' \<and>
           (\<exists>p d. (n, p, d) \<in> set (visits os ps (cwd st)) \<and> existsSync os d p)}"
    by simp_all
  with g show "distinct (map fst (rep_gitProgress r))"
    and "set (map fst (rep_gitProgress r)) =
           {n. n \<noteq> ''__proto__'' \<and>
               (\<exists>p d. (n, p, d) \<in> set (visits os ps (cwd st)) \<and> existsSync os d p)}"
    and "projectsChecked (rep_summary r) = length (rep_gitProgress r)"
    by simp_all
qed

lemma report_health:
  assumes "fst (generateMonitoringReport os e reg st) = Inr r"
  shows "overallHealth (rep_summary r) =
     (if fst (detectStuckPrompts os
               (snd (checkGitProgress os reg
                 (snd (runMCPMonitoring os ''detailed'' (log LogGenerating st)))))) = []
         \<and> existsSync os (cwd st) mcpScript
         \<and> ifTruthy (fst (execSync os (cwd st) (PythonMCP []) (world st))) \<noteq> None
      then Excellent else NeedsAttention)"
proof -
  from assms report_produced [of os e reg st] obtain ps where r: "reg = Some ps" by auto
  from report_result [where os = os and st = st and reg = reg and e = e] r
  obtain m st1 g st2 ss st3 where
    a: "runMCPMonitoring os ''detailed'' (log LogGenerating st) = (m, st1)"
    and b: "checkGitProgress os (Some ps) st1 = (Inr g, st2)"
    and c: "detectStuckPrompts os st2 = (ss, st3)"
    and f: "fst (generateMonitoringReport os e reg st) =
               (case saveReport os of
                  Some msg \<Rightarrow> Inl (ReportNotSaved msg)
                | None \<Rightarrow>
                    Inr \<lparr>rep_mcp = m, rep_gitProgress = g, rep_stuckSessions = ss,
                         rep_summary =
                           \<lparr>projectsChecked = length g, stuckPrompts = length ss,
                            mcpStatus = (if success m then Operational else StatusError),
                            overallHealth =
                              (if ss = [] \<and> success m
                               then Excellent else NeedsAttention)\<rparr>\<rparr>)"
    by auto
  from f assms have h: "overallHealth (rep_summary r) =
      (if ss = [] \<and> success m then Excellent else NeedsAttention)"
    by (auto split: option.splits)
  from runMCP_props [of os "''detailed''" "log LogGenerating st"] a
  have s: "success m \<longleftrightarrow>
      existsSync os (cwd st) mcpScript \<and>
      ifTruthy (fst (execSync os (cwd st) (PythonMCP []) (world st))) \<noteq> None"
    by simp
  show ?thesis unfolding h s using a b c r by simp
qed

lemma report_alerts:
  "alerts (newCalls st (snd (generateMonitoringReport os e reg st))) =
     (if reg \<noteq> None
         \<and> fst (detectStuckPrompts os
                 (snd (checkGitProgress os reg
                   (snd (runMCPMonitoring os ''detailed'' (log LogGenerating st)))))) \<noteq> []
         \<and> existsSync os (cwd (snd (generateMonitoringReport os e reg st))) e
      then [map (\<lambda>s. (session s, pattern s))
              (fst (detectStuckPrompts os
                (snd (checkGitProgress os reg
                  (snd (runMCPMonitoring os ''detailed'' (log LogGenerating st)))))))]
      else [])"
proof (cases reg)
  case None
  then show ?thesis using report_none_props [of os e st] by simp
next
  case (Some ps)
  obtain m st1 where a: "runMCPMonitoring os ''detailed'' (log LogGenerating st) = (m, st1)"
    by fastforce
  from checkGit_props [of os ps st1]
  obtain g st2 where b: "checkGitProgress os (Some ps) st1 = (Inr g, st2)" by blast
  obtain ss st3 where c: "detectStuckPrompts os st2 = (ss, st3)" by fastforce
  from report_props(3) [OF a b c, of e] show ?thesis
    using Some a b c by simp
qed

lemma report_cwd:
  "cwd (snd (generateMonitoringReport os e reg st)) =
     (case reg of None \<Rightarrow> cwd st
      | Some ps \<Rightarrow> last (cwd st # entered os (visits os ps (cwd st))))"
proof (cases reg)
  case None
  then show ?thesis using report_none_props [of os e st] by simp
next
  case (Some ps)
  obtain m st1 where a: "runMCPMonitoring os ''detailed'' (log LogGenerating st) = (m, st1)"
    by fastforce
  from checkGit_props [of os ps st1]
  obtain g st2 where b: "checkGitProgress os (Some ps) st1 = (Inr g, st2)" by blast
  obtain ss st3 where c: "detectStuckPrompts os st2 = (ss, st3)" by fastforce
  from report_props(1) [OF a b c, of e] show ?thesis
    using Some by simp
qed

text \<open>
  For paths that are absolute and already resolved, the walk does not depend on the
  working directory.
\<close>

lemma entered_absolute:
  assumes "\<forall>(n, p) \<in> set ps. \<forall>d.
             existsSync os d p = ex p \<and>
             chdir os d p = (case cd p of Some msg \<Rightarrow> Inl msg | None \<Rightarrow> Inr p)"
  shows "entered os (visits os ps d) = map snd (filter (\<lambda>(n, p). ex p \<and> cd p = None) ps)"
  using assms
proof (induction ps arbitrary: d)
  case Nil
  then show ?case by (simp add: entered_def)
next
  case (Cons a ps)
  obtain n p where a: "a = (n, p)" by fastforce
  from Cons.prems a have h: "\<forall>d. existsSync os d p = ex p \<and>
      chdir os d p = (case cd p of Some msg \<Rightarrow> Inl msg | None \<Rightarrow> Inr p)"
    by auto
  from Cons.prems have r: "\<forall>(n, p) \<in> set ps. \<forall>d.
             existsSync os d p = ex p \<and>
             chdir os d p = (case cd p of Some msg \<Rightarrow> Inl msg | None \<Rightarrow> Inr p)"
    by simp
  have "entered os (visits os (a # ps) d) =
      entered os [(n, p, d)] @ entered os (visits os ps (enter os d p))"
    using a by (simp add: entered_Cons [of os n p d "visits os ps (enter os d p)"])
  also have "entered os (visits os ps (enter os d p)) =
      map snd (filter (\<lambda>(n, p). ex p \<and> cd p = None) ps)"
    by (rule Cons.IH [OF r])
  also have "entered os [(n, p, d)] = (if ex p \<and> cd p = None then [p] else [])"
    using h by (auto simp: entered_def split: option.splits)
  finally show ?case using a by simp
qed

section \<open>Ground-truth verification\<close>

text \<open>
  Claim C3 says that the report has exactly one git entry for every tracked project, and
  that a project whose path does not exist gets an entry with its error field set. The
  script only logs \<^verbatim>\<open>Project path not found\<close> for such a project and records nothing.
  With three tracked projects, of which the last has no path on disk, the report has two
  entries and counts two projects checked.
\<close>

theorem missing_path_has_no_entry:
  "(''gone'', ''/srv/gone'') \<in> set registry
   \<and> \<not> existsSync os_repos ''/srv/app'' ''/srv/gone''
   \<and> fst (generateMonitoringReport os_repos emailJs (Some registry) start) = Inr report_repos
   \<and> map fst (rep_gitProgress report_repos) = [''app'', ''notes'']
   \<and> projectsChecked (rep_summary report_repos) = 2"
proof -
  have a: "(''gone'', ''/srv/gone'') \<in> set registry" by code_simp
  have b: "\<not> existsSync os_repos ''/srv/app'' ''/srv/gone''" by code_simp
  have c: "fst (generateMonitoringReport os_repos emailJs (Some registry) start) =
      Inr report_repos"
    by code_simp
  have d: "map fst (rep_gitProgress report_repos) = [''app'', ''notes'']"
    by (simp add: report_repos_def)
  have e: "projectsChecked (rep_summary report_repos) = 2"
    by (simp add: report_repos_def)
  from a b c d e show ?thesis by blast
qed

text \<open>
  Claim C3 as amended: with external commands that return, a run produces its report
  exactly when the registry can be loaded and the report file can be written, whatever
  the paths of the registry are.
  The report then has exactly one git entry, without duplicates, for each tracked project
  whose path exists when the loop reaches it (a relative path is resolved against the
  working directory the loop has moved to), and none for a tracked project whose path
  does not exist then; \<^verbatim>\<open>projectsChecked\<close> counts the entries. This is said of
  projects with an ordinary name; nothing is said of a project named \<^verbatim>\<open>__proto__\<close>.
\<close>

theorem one_entry_per_existing_project:
  "((\<exists>r. fst (generateMonitoringReport os e reg st) = Inr r) \<longleftrightarrow>
      reg \<noteq> None \<and> saveReport os = None)
   \<and> (\<forall>ps r. reg = Some ps \<and> fst (generateMonitoringReport os e reg st) = Inr r \<longrightarrow>
        distinct (map fst (rep_gitProgress r))
        \<and> (\<forall>n. n \<noteq> ''__proto__'' \<longrightarrow>
              (n \<in> set (map fst (rep_gitProgress r)) \<longleftrightarrow>
               (\<exists>p d. (n, p, d) \<in> set (visits os ps (cwd st)) \<and> existsSync os d p)))
        \<and> projectsChecked (rep_summary r) = length (rep_gitProgress r))"
proof (intro conjI allI impI)
  show "(\<exists>r. fst (generateMonitoringReport os e reg st) = Inr r) \<longleftrightarrow>
      reg \<noteq> None \<and> saveReport os = None"
    by (rule report_produced)
next
  fix ps r
  assume "reg = Some ps \<and> fst (generateMonitoringReport os e reg st) = Inr r"
  then have r: "fst (generateMonitoringReport os e (Some ps) st) = Inr r" by blast
  show "distinct (map fst (rep_gitProgress r))"
    by (rule report_git(1) [OF r])
  show "projectsChecked (rep_summary r) = length (rep_gitProgress r)"
    by (rule report_git(3) [OF r])
  fix n :: string
  assume "n \<noteq> ''__proto__''"
  then show "n \<in> set (map fst (rep_gitProgress r)) \<longleftrightarrow>
      (\<exists>p d. (n, p, d) \<in> set (visits os ps (cwd st)) \<and> existsSync os d p)"
    unfolding report_git(2) [OF r] by simp
qed

text \<open>
  A registry with a relative path: \<^verbatim>\<open>docs\<close> does not exist where the run starts,
  but it does in the directory of the project before it, so it has its entry.
\<close>

theorem one_entry_per_existing_project_witness:
  "saveReport os_relative = None
   \<and> visits os_relative registry_relative (cwd start) =
       [(''app'', ''/srv/app'', ''/home/dev''), (''docs'', ''docs'', ''/srv/app'')]
   \<and> \<not> existsSync os_relative ''/home/dev'' ''docs''
   \<and> existsSync os_relative ''/srv/app'' ''docs''
   \<and> ''docs'' \<in> set (map fst (rep_gitProgress
         (projr (fst (generateMonitoringReport os_relative emailJs (Some registry_relative)
                        start)))))"
proof -
  have a: "saveReport os_relative = None" by (simp add: os_relative_def)
  have v: "visits os_relative registry_relative (cwd start) =
       [(''app'', ''/srv/app'', ''/home/dev''), (''docs'', ''docs'', ''/srv/app'')]"
    by code_simp
  have n: "\<not> existsSync os_relative ''/home/dev'' ''docs''" by code_simp
  have x: "existsSync os_relative ''/srv/app'' ''docs''" by code_simp
  note t = one_entry_per_existing_project
    [where os = os_relative and e = emailJs and reg = "Some registry_relative" and st = start]
  note t1 = t [THEN conjunct1]
  note t2 = t [THEN conjunct2, rule_format]
  have "\<exists>r. fst (generateMonitoringReport os_relative emailJs (Some registry_relative) start)
      = Inr r"
    unfolding t1 using a by simp
  then obtain r where
    r: "fst (generateMonitoringReport os_relative emailJs (Some registry_relative) start) = Inr r"
    ..
  have c: "Some registry_relative = Some registry_relative \<and>
      fst (generateMonitoringReport os_relative emailJs (Some registry_relative) start) = Inr r"
    using r by simp
  note k = t2 [OF c, THEN conjunct2, THEN conjunct1, rule_format]
  have p: "''docs'' \<noteq> ''__proto__''" by simp
  have m: "(''docs'', ''docs'', ''/srv/app'')
      \<in> set (visits os_relative registry_relative (cwd start))"
    unfolding v by simp
  have "\<exists>p d. (''docs'', p, d) \<in> set (visits os_relative registry_relative (cwd start)) \<and>
             existsSync os_relative d p"
    using m x by blast
  then have "''docs'' \<in> set (map fst (rep_gitProgress r))"
    unfolding k [OF p] .
  then have "''docs'' \<in> set (map fst (rep_gitProgress
         (projr (fst (generateMonitoringReport os_relative emailJs (Some registry_relative)
                        start)))))"
    unfolding r by simp
  with a v n x show ?thesis by blast
qed

text \<open>
  Claim C8 says that a failing inspection sets the error field of the project's entry.
  The script's \<^verbatim>\<open>exec\<close> turns a failing command into \<^verbatim>\<open>null\<close>, and the entry is
  filled with defaults. In a directory that is not a repository all three inspections
  fail, and the entry has no error.
\<close>

theorem failed_inspections_leave_no_error:
  "existsSync os_norepo ''/home/dev'' ''/srv/scratch''
   \<and> chdir os_norepo ''/home/dev'' ''/srv/scratch'' = Inr ''/srv/scratch''
   \<and> execSync os_norepo ''/srv/scratch'' GitLog 0 = (None, 0)
   \<and> execSync os_norepo ''/srv/scratch'' GitStatus 0 = (None, 0)
   \<and> execSync os_norepo ''/srv/scratch'' GitBranch 0 = (None, 0)
   \<and> fst (checkGitProgress os_norepo (Some [(''scratch'', ''/srv/scratch'')]) start) =
       Inr [(''scratch'', Activity ''/srv/scratch'' None 0 ''unknown'' ''unknown'')]"
proof -
  have a: "existsSync os_norepo ''/home/dev'' ''/srv/scratch''" by code_simp
  have a': "chdir os_norepo ''/home/dev'' ''/srv/scratch'' = Inr ''/srv/scratch''"
    by code_simp
  have b: "execSync os_norepo ''/srv/scratch'' GitLog 0 = (None, 0)" by code_simp
  have c: "execSync os_norepo ''/srv/scratch'' GitStatus 0 = (None, 0)" by code_simp
  have d: "execSync os_norepo ''/srv/scratch'' GitBranch 0 = (None, 0)" by code_simp
  have e: "fst (checkGitProgress os_norepo (Some [(''scratch'', ''/srv/scratch'')]) start) =
       Inr [(''scratch'', Activity ''/srv/scratch'' None 0 ''unknown'' ''unknown'')]"
    by code_simp
  from a a' b c d e show ?thesis by blast
qed

text \<open>
  Claim C8 as amended: for a tracked project with an ordinary name (not
  \<^verbatim>\<open>__proto__\<close>) whose path exists and can be entered, a failing inspection puts the
  default of its field into the entry and sets no error: no commit and last activity
  \<^verbatim>\<open>unknown\<close> when \<^verbatim>\<open>git log\<close> fails, zero pending changes when \<^verbatim>\<open>git status\<close>
  fails, branch \<^verbatim>\<open>unknown\<close> when \<^verbatim>\<open>git branch\<close> fails. The entry is an error only
  when \<^verbatim>\<open>git log\<close> printed fewer than four fields (or, by \<open>checkProject_chdir_fails\<close>,
  when the directory cannot be entered). No failure aborts or alters the inspection of
  another project: whenever the registry loads, the same three commands are run in every
  directory the loop enters, in registry order, and every project with an ordinary name
  whose path exists when the loop reaches it has its entry.
\<close>

theorem failed_inspection_gives_default_not_error:
  assumes "name \<noteq> ''__proto__''"
    and "existsSync os (cwd st) p" and "chdir os (cwd st) p = Inr dir"
    and "execSync os dir GitLog (world st) = (lc, w1)"
    and "execSync os dir GitStatus w1 = (uc, w2)"
    and "execSync os dir GitBranch w2 = (br, w3)"
  shows "map_of (fst (checkProject os name p pd st)) name =
           Some (case ifTruthy lc of
                   None \<Rightarrow>
                     Activity p None
                       (case ifTruthy uc of None \<Rightarrow> 0 | Some u \<Rightarrow> length (js_split newline u))
                       (case ifTruthy br of None \<Rightarrow> ''unknown'' | Some b \<Rightarrow> b)
                       ''unknown''
                 | Some l \<Rightarrow>
                     (case js_split CHR ''|'' l of
                        hash # author # time # message # others \<Rightarrow>
                          Activity p (Some (js_split CHR ''|'' l))
                            (case ifTruthy uc of None \<Rightarrow> 0
                             | Some u \<Rightarrow> length (js_split newline u))
                            (case ifTruthy br of None \<Rightarrow> ''unknown'' | Some b \<Rightarrow> b)
                            time
                      | _ \<Rightarrow> GitError MessageUndefined))
         \<and> (\<exists>g st''.
               checkGitProgress os (Some ps) st' = (Inr g, st'') \<and>
               map (\<lambda>(d, c, r). (d, c)) (newCalls st' st'') =
                 concat (map inspections (entered os (visits os ps (cwd st')))) \<and>
               (\<forall>n. n \<noteq> ''__proto__'' \<longrightarrow>
                  (n \<in> set (map fst g) \<longleftrightarrow>
                   (\<exists>q d. (n, q, d) \<in> set (visits os ps (cwd st')) \<and> existsSync os d q))))"
proof -
  have "map_of (fst (checkProject os name p pd st)) name =
           Some (case ifTruthy lc of
                   None \<Rightarrow>
                     Activity p None
                       (case ifTruthy uc of None \<Rightarrow> 0 | Some u \<Rightarrow> length (js_split newline u))
                       (case ifTruthy br of None \<Rightarrow> ''unknown'' | Some b \<Rightarrow> b)
                       ''unknown''
                 | Some l \<Rightarrow>
                     (case js_split CHR ''|'' l of
                        hash # author # time # message # others \<Rightarrow>
                          Activity p (Some (js_split CHR ''|'' l))
                            (case ifTruthy uc of None \<Rightarrow> 0
                             | Some u \<Rightarrow> length (js_split newline u))
                            (case ifTruthy br of None \<Rightarrow> ''unknown'' | Some b \<Rightarrow> b)
                            time
                      | _ \<Rightarrow> GitError MessageUndefined))"
    using assms
    by (simp add: checkProject_def exec_def setProperty_lookup
          split: option.splits list.splits)
  moreover from checkGit_props [of os ps st']
  have "\<exists>g st''.
               checkGitProgress os (Some ps) st' = (Inr g, st'') \<and>
               map (\<lambda>(d, c, r). (d, c)) (newCalls st' st'') =
                 concat (map inspections (entered os (visits os ps (cwd st')))) \<and>
               (\<forall>n. n \<noteq> ''__proto__'' \<longrightarrow>
                  (n \<in> set (map fst g) \<longleftrightarrow>
                   (\<exists>q d. (n, q, d) \<in> set (visits os ps (cwd st')) \<and> existsSync os d q)))"
    by (elim exE conjE, intro exI conjI) (assumption, assumption, simp)
  ultimately show ?thesis by blast
qed

text \<open>
  A repository with a detached head and a failing \<^verbatim>\<open>git status\<close>: the entry keeps
  the commit, counts no pending change and names the branch \<^verbatim>\<open>unknown\<close>.
\<close>

theorem failed_inspection_gives_default_not_error_witness:
  "''app'' \<noteq> ''__proto__''
   \<and> existsSync os_detached (cwd start) ''/srv/app''
   \<and> chdir os_detached (cwd start) ''/srv/app'' = Inr ''/srv/app''
   \<and> execSync os_detached ''/srv/app'' GitLog 0 = (Some ''abc123|Dev|2 hours ago|Fix bug'', 0)
   \<and> execSync os_detached ''/srv/app'' GitStatus 0 = (None, 0)
   \<and> execSync os_detached ''/srv/app'' GitBranch 0 = (Some [], 0)
   \<and> map_of (fst (checkProject os_detached ''app'' ''/srv/app'' [] start)) ''app'' =
       Some (Activity ''/srv/app'' (Some [''abc123'', ''Dev'', ''2 hours ago'', ''Fix bug''])
               0 ''unknown'' ''2 hours ago'')"
proof -
  have h0: "''app'' \<noteq> ''__proto__''" by simp
  have h1: "existsSync os_detached (cwd start) ''/srv/app''" by code_simp
  have h2: "chdir os_detached (cwd start) ''/srv/app'' = Inr ''/srv/app''" by code_simp
  have h3: "execSync os_detached ''/srv/app'' GitLog (world start) =
      (Some ''abc123|Dev|2 hours ago|Fix bug'', 0)" by code_simp
  have h4: "execSync os_detached ''/srv/app'' GitStatus 0 = (None, 0)" by code_simp
  have h5: "execSync os_detached ''/srv/app'' GitBranch 0 = (Some [], 0)" by code_simp
  have w: "world start = 0" by (simp add: start_def)
  have s: "js_split CHR ''|'' ''abc123|Dev|2 hours ago|Fix bug'' =
      [''abc123'', ''Dev'', ''2 hours ago'', ''Fix bug'']" by code_simp
  from failed_inspection_gives_default_not_error [OF h0 h1 h2 h3 h4 h5, of "[]"]
  have "map_of (fst (checkProject os_detached ''app'' ''/srv/app'' [] start)) ''app'' =
       Some (Activity ''/srv/app'' (Some [''abc123'', ''Dev'', ''2 hours ago'', ''Fix bug''])
               0 ''unknown'' ''2 hours ago'')"
    by (simp add: ifTruthy_def s)
  with h0 h1 h2 h3 h4 h5 w show ?thesis by simp
qed

text \<open>
  Claim C10 says that after the git check the working directory of the process is the
  path of the last tracked project that exists. A path can exist and still not be a
  directory that \<^verbatim>\<open>process.chdir\<close> accepts; the exception is caught and the working
  directory stays where it was. Here the last existing path is a file, and the process
  ends in the directory of the project before it.
\<close>

theorem cwd_not_last_existing_path:
  "registry = [(''app'', ''/srv/app''), (''notes'', ''/srv/notes.txt''), (''gone'', ''/srv/gone'')]
   \<and> existsSync os_repos ''/home/dev'' ''/srv/app''
   \<and> existsSync os_repos ''/srv/app'' ''/srv/notes.txt''
   \<and> \<not> existsSync os_repos ''/srv/app'' ''/srv/gone''
   \<and> cwd (snd (checkGitProgress os_repos (Some registry) start)) = ''/srv/app''"
proof -
  have a: "registry =
      [(''app'', ''/srv/app''), (''notes'', ''/srv/notes.txt''), (''gone'', ''/srv/gone'')]"
    by (simp add: registry_def)
  have b: "existsSync os_repos ''/home/dev'' ''/srv/app''" by code_simp
  have c: "existsSync os_repos ''/srv/app'' ''/srv/notes.txt''" by code_simp
  have d: "\<not> existsSync os_repos ''/srv/app'' ''/srv/gone''" by code_simp
  have e: "cwd (snd (checkGitProgress os_repos (Some registry) start)) = ''/srv/app''"
    by code_simp
  from a b c d e show ?thesis by blast
qed

text \<open>
  Claim C10 as amended: the git check changes the working directory of the process and
  never restores it. For each tracked project whose path exists when the loop reaches it
  (a relative path is resolved against the working directory the loop has already
  changed) the process attempts \<^verbatim>\<open>process.chdir\<close>; after the check, and at the end of
  the full run, the working directory is the directory that the last successful
  \<^verbatim>\<open>process.chdir\<close> of the loop put the process in, and it is unchanged when none
  succeeded or when the registry could not be loaded. When the registry paths are
  absolute and already resolved, so that the tests do not depend on the working directory
  and \<^verbatim>\<open>process.chdir\<close> leaves the process in the path it is given, this is the path
  of the last tracked project that exists and that \<^verbatim>\<open>process.chdir\<close> accepted.
\<close>

theorem cwd_after_git_check:
  "cwd (snd (checkGitProgress os reg st)) =
     (case reg of None \<Rightarrow> cwd st
      | Some ps \<Rightarrow> last (cwd st # entered os (visits os ps (cwd st))))
   \<and> cwd (snd (generateMonitoringReport os e reg st)) =
     (case reg of None \<Rightarrow> cwd st
      | Some ps \<Rightarrow> last (cwd st # entered os (visits os ps (cwd st))))
   \<and> ((\<forall>(n, p) \<in> set qs. \<forall>d.
          existsSync os d p = ex p \<and>
          chdir os d p = (case cd p of Some msg \<Rightarrow> Inl msg | None \<Rightarrow> Inr p)) \<longrightarrow>
        cwd (snd (checkGitProgress os (Some qs) st)) =
          last (cwd st # map snd (filter (\<lambda>(n, p). ex p \<and> cd p = None) qs)))"
proof (intro conjI impI)
  show "cwd (snd (checkGitProgress os reg st)) =
     (case reg of None \<Rightarrow> cwd st
      | Some ps \<Rightarrow> last (cwd st # entered os (visits os ps (cwd st))))"
    using checkGit_general [of os reg st] by blast
  show "cwd (snd (generateMonitoringReport os e reg st)) =
     (case reg of None \<Rightarrow> cwd st
      | Some ps \<Rightarrow> last (cwd st # entered os (visits os ps (cwd st))))"
    by (rule report_cwd)
next
  assume h: "\<forall>(n, p) \<in> set qs. \<forall>d.
          existsSync os d p = ex p \<and>
          chdir os d p = (case cd p of Some msg \<Rightarrow> Inl msg | None \<Rightarrow> Inr p)"
  have "cwd (snd (checkGitProgress os (Some qs) st)) =
      last (cwd st # entered os (visits os qs (cwd st)))"
    using checkGit_general [of os "Some qs" st] by simp
  then show "cwd (snd (checkGitProgress os (Some qs) st)) =
          last (cwd st # map snd (filter (\<lambda>(n, p). ex p \<and> cd p = None) qs))"
    unfolding entered_absolute [OF h] .
qed

text \<open>
  With the relative path of \<open>registry_relative\<close> the process ends in the resolved
  directory \<^verbatim>\<open>/srv/app/docs\<close>; with the absolute paths of \<open>registry\<close> it ends in
  \<^verbatim>\<open>/srv/app\<close>, the last path that exists and can be entered.
\<close>

theorem cwd_after_git_check_witness:
  "entered os_relative (visits os_relative registry_relative (cwd start)) =
     [''/srv/app'', ''/srv/app/docs'']
   \<and> cwd (snd (checkGitProgress os_relative (Some registry_relative) start)) = ''/srv/app/docs''
   \<and> map snd (filter (\<lambda>(n, p). p \<noteq> ''/srv/gone'' \<and>
                      (if p = ''/srv/notes.txt'' then Some ''ENOTDIR'' else None) = None)
                registry) = [''/srv/app'']
   \<and> cwd (snd (checkGitProgress os_repos (Some registry) start)) = ''/srv/app''"
proof -
  have a: "entered os_relative (visits os_relative registry_relative (cwd start)) =
     [''/srv/app'', ''/srv/app/docs'']"
    by code_simp
  have h: "\<forall>(n, p) \<in> set registry. \<forall>d.
      existsSync os_repos d p = (p \<noteq> ''/srv/gone'') \<and>
      chdir os_repos d p =
        (case (if p = ''/srv/notes.txt'' then Some ''ENOTDIR'' else None) of
           Some msg \<Rightarrow> Inl msg | None \<Rightarrow> Inr p)"
    by (simp add: os_repos_def sim_os_def)
  have f: "map snd (filter (\<lambda>(n, p). p \<noteq> ''/srv/gone'' \<and>
                      (if p = ''/srv/notes.txt'' then Some ''ENOTDIR'' else None) = None)
                registry) = [''/srv/app'']"
    by (simp add: registry_def)
  note t1 = cwd_after_git_check
    [where os = os_relative and reg = "Some registry_relative" and st = start]
  note t2 = cwd_after_git_check
    [where os = os_repos and qs = registry and st = start
       and ex = "\<lambda>p. p \<noteq> ''/srv/gone''"
       and cd = "\<lambda>p. if p = ''/srv/notes.txt'' then Some ''ENOTDIR'' else None"]
  note u1 = t1 [THEN conjunct1]
  note u2 = t2 [THEN conjunct2, THEN conjunct2, THEN mp, OF h]
  have b: "cwd (snd (checkGitProgress os_relative (Some registry_relative) start)) =
      ''/srv/app/docs''"
    unfolding u1 by (simp add: a)
  have c: "cwd (snd (checkGitProgress os_repos (Some registry) start)) = ''/srv/app''"
    unfolding u2 f by simp
  from a b f c show ?thesis by blast
qed

section \<open>Escalation\<close>

text \<open>
  Claim C2 says that the notifier is called only for sessions that are still stuck after
  recovery. The script passes the list of detected sessions to the recovery and then to
  the alert, and the recovery returns nothing. Here the only stuck session is resolved by
  the second fallback input, and the alert is sent all the same, naming that session.
\<close>

theorem alert_sent_though_session_recovered:
  "fst (generateMonitoringReport (os_prompt 2) emailJs (Some []) start) = Inr report_prompt
   \<and> rep_stuckSessions report_prompt = [stuck_proceed]
   \<and> injections ''main''
        (trace (snd (generateMonitoringReport (os_prompt 2) emailJs (Some []) start))) =
       [''y'', ''yes'']
   \<and> LogFixed ''main'' ''yes''
       \<in> set (console (snd (generateMonitoringReport (os_prompt 2) emailJs (Some []) start)))
   \<and> alerts (trace (snd (generateMonitoringReport (os_prompt 2) emailJs (Some []) start))) =
       [[(''main'', ''Do you want to proceed?'')]]"
proof -
  have a: "fst (generateMonitoringReport (os_prompt 2) emailJs (Some []) start) =
      Inr report_prompt"
    by code_simp
  have a': "rep_stuckSessions report_prompt = [stuck_proceed]"
    by (simp add: report_prompt_def)
  have b: "injections ''main''
      (trace (snd (generateMonitoringReport (os_prompt 2) emailJs (Some []) start))) =
      [''y'', ''yes'']"
    by code_simp
  have c: "LogFixed ''main'' ''yes''
       \<in> set (console (snd (generateMonitoringReport (os_prompt 2) emailJs (Some []) start)))"
    by code_simp
  have d: "alerts (trace (snd (generateMonitoringReport (os_prompt 2) emailJs (Some []) start))) =
       [[(''main'', ''Do you want to proceed?'')]]"
    by code_simp
  from a a' b c d show ?thesis by blast
qed

text \<open>
  Claim C2 as amended: the notifier is invoked at most once per run, in every mode. In a
  full run it is invoked exactly when the registry could be loaded, the detection found at
  least one stuck session and the e-mail script exists, whatever the recovery did, and the
  one alert names every detected session.
\<close>

theorem one_alert_iff_detection_found_stuck:
  "alerts (newCalls st (snd (generateMonitoringReport os e reg st))) =
     (if reg \<noteq> None
         \<and> fst (detectStuckPrompts os
                 (snd (checkGitProgress os reg
                   (snd (runMCPMonitoring os ''detailed'' (log LogGenerating st)))))) \<noteq> []
         \<and> existsSync os (cwd (snd (generateMonitoringReport os e reg st))) e
      then [map (\<lambda>s. (session s, pattern s))
              (fst (detectStuckPrompts os
                (snd (checkGitProgress os reg
                  (snd (runMCPMonitoring os ''detailed'' (log LogGenerating st)))))))]
      else [])
   \<and> length (alerts (newCalls st (snd (main os e reg args st)))) \<le> 1"
proof -
  have 2: "length (alerts (newCalls st (snd (main os e reg args st)))) \<le> 1"
    unfolding main_alerts report_alerts by simp
  from report_alerts [of st os e reg] 2 show ?thesis by blast
qed

section \<open>Report and exit status\<close>

text \<open>
  Claim C1 makes health \<^verbatim>\<open>excellent\<close> depend on three things: no session stuck
  after recovery, no git entry with an error, and a successful status check. The script
  looks at the number of detected sessions and at the status check only. In the first run
  below one git entry is an error and health is \<^verbatim>\<open>excellent\<close>; in the second the only
  stuck session is fixed by the first input, no git entry is an error, the status check
  succeeds, and health is \<^verbatim>\<open>needs-attention\<close>.
\<close>

theorem git_error_excellent_and_recovered_needs_attention:
  "fst (generateMonitoringReport os_repos emailJs (Some registry) start) = Inr report_repos
   \<and> rep_gitProgress report_repos =
       [(''app'', Activity ''/srv/app'' (Some [''abc123'', ''Dev'', ''2 hours ago'', ''Fix bug''])
                   0 ''main'' ''2 hours ago''),
        (''notes'', GitError (ChdirFailed ''ENOTDIR''))]
   \<and> overallHealth (rep_summary report_repos) = Excellent
   \<and> fst (generateMonitoringReport (os_prompt 1) emailJs (Some []) start) = Inr report_prompt
   \<and> console (snd (generateMonitoringReport (os_prompt 1) emailJs (Some []) start)) =
       [LogGenerating, LogRunningMCP ''detailed'', LogMCPCompleted, LogCheckingGit,
        LogDetecting, LogFoundStuck 1, LogStuckSession ''main'',
        LogStuckPattern ''Do you want to proceed?'',
        LogStuckContext ''Do you want to proceed? Please confirm'',
        LogAutoFixStart, LogAttemptFix ''main'', LogFixed ''main'' ''y'',
        LogSendingAlert, LogAlertSent]
   \<and> rep_stuckSessions report_prompt = [stuck_proceed]
   \<and> rep_gitProgress report_prompt = []
   \<and> success (rep_mcp report_prompt)
   \<and> overallHealth (rep_summary report_prompt) = NeedsAttention"
proof -
  have a: "fst (generateMonitoringReport os_repos emailJs (Some registry) start) =
      Inr report_repos"
    by code_simp
  have b: "rep_gitProgress report_repos =
       [(''app'', Activity ''/srv/app'' (Some [''abc123'', ''Dev'', ''2 hours ago'', ''Fix bug''])
                   0 ''main'' ''2 hours ago''),
        (''notes'', GitError (ChdirFailed ''ENOTDIR''))]"
    and c: "overallHealth (rep_summary report_repos) = Excellent"
    by (simp_all add: report_repos_def)
  have d: "fst (generateMonitoringReport (os_prompt 1) emailJs (Some []) start) =
      Inr report_prompt"
    by code_simp
  have e: "console (snd (generateMonitoringReport (os_prompt 1) emailJs (Some []) start)) =
       [LogGenerating, LogRunningMCP ''detailed'', LogMCPCompleted, LogCheckingGit,
        LogDetecting, LogFoundStuck 1, LogStuckSession ''main'',
        LogStuckPattern ''Do you want to proceed?'',
        LogStuckContext ''Do you want to proceed? Please confirm'',
        LogAutoFixStart, LogAttemptFix ''main'', LogFixed ''main'' ''y'',
        LogSendingAlert, LogAlertSent]"
    by code_simp
  have f: "rep_stuckSessions report_prompt = [stuck_proceed]"
    and g: "rep_gitProgress report_prompt = []"
    and h: "success (rep_mcp report_prompt)"
    and i: "overallHealth (rep_summary report_prompt) = NeedsAttention"
    by (simp_all add: report_prompt_def)
  from a b c d e f g h i show ?thesis by blast
qed

text \<open>
  Claim C1 as amended: in every run that produces a report, health is \<^verbatim>\<open>excellent\<close>
  if and only if the detection found no stuck session (before any recovery) and the
  status check succeeded, that is, its script exists and printed something; otherwise it
  is \<^verbatim>\<open>needs-attention\<close>. The git entries and the outcome of the recovery play no part.
\<close>

theorem health_is_detection_and_oracle_only:
  assumes "fst (generateMonitoringReport os e reg st) = Inr r"
  shows "overallHealth (rep_summary r) =
     (if fst (detectStuckPrompts os
               (snd (checkGitProgress os reg
                 (snd (runMCPMonitoring os ''detailed'' (log LogGenerating st)))))) = []
         \<and> existsSync os (cwd st) mcpScript
         \<and> ifTruthy (fst (execSync os (cwd st) (PythonMCP []) (world st))) \<noteq> None
      then Excellent else NeedsAttention)"
  using assms by (rule report_health)

text \<open>
  The run with an error among its git entries: nothing is detected, the status check
  prints its line, and health is \<^verbatim>\<open>excellent\<close>.
\<close>

theorem health_is_detection_and_oracle_only_witness:
  "fst (generateMonitoringReport os_repos emailJs (Some registry) start) = Inr report_repos
   \<and> fst (detectStuckPrompts os_repos
           (snd (checkGitProgress os_repos (Some registry)
             (snd (runMCPMonitoring os_repos ''detailed'' (log LogGenerating start)))))) = []
   \<and> existsSync os_repos (cwd start) mcpScript
   \<and> fst (execSync os_repos (cwd start) (PythonMCP []) (world start)) =
       Some ''all agents healthy''
   \<and> overallHealth (rep_summary report_repos) = Excellent"
proof -
  have a: "fst (generateMonitoringReport os_repos emailJs (Some registry) start) =
      Inr report_repos"
    by code_simp
  have b: "fst (detectStuckPrompts os_repos
           (snd (checkGitProgress os_repos (Some registry)
             (snd (runMCPMonitoring os_repos ''detailed'' (log LogGenerating start)))))) = []"
    by code_simp
  have c: "existsSync os_repos (cwd start) mcpScript" by code_simp
  have d: "fst (execSync os_repos (cwd start) (PythonMCP []) (world start)) =
       Some ''all agents healthy''"
    by code_simp
  from health_is_detection_and_oracle_only [OF a]
  have "overallHealth (rep_summary report_repos) = Excellent"
    unfolding b d using c by (simp add: ifTruthy_def)
  with a b c d show ?thesis by blast
qed

text \<open>
  Claim C9 says that in every mode the exit status is 0 or not according to the health
  of the run alone. In a world whose full run has health \<^verbatim>\<open>needs-attention\<close> and exits
  with 1, mode \<^verbatim>\<open>git\<close> exits with 0; mode \<^verbatim>\<open>stuck\<close> exits with the number of stuck
  sessions, 1 in this world and 2 in a world with two of them.
\<close>

theorem exit_status_depends_on_mode_and_count:
  "fst (generateMonitoringReport (os_prompt 1) emailJs (Some []) start) = Inr report_prompt
   \<and> overallHealth (rep_summary report_prompt) = NeedsAttention
   \<and> fst (main (os_prompt 1) emailJs (Some []) [''full''] start) = Exit 1
   \<and> fst (main (os_prompt 1) emailJs (Some []) [''git''] start) = Exit 0
   \<and> fst (main (os_prompt 1) emailJs (Some []) [''stuck''] start) = Exit 1
   \<and> fst (main os_vanish emailJs (Some []) [''stuck''] start) = Exit 2"
proof -
  have a: "fst (generateMonitoringReport (os_prompt 1) emailJs (Some []) start) =
      Inr report_prompt"
    by code_simp
  have a': "overallHealth (rep_summary report_prompt) = NeedsAttention"
    by (simp add: report_prompt_def)
  have b: "fst (main (os_prompt 1) emailJs (Some []) [''full''] start) = Exit 1" by code_simp
  have c: "fst (main (os_prompt 1) emailJs (Some []) [''git''] start) = Exit 0" by code_simp
  have d: "fst (main (os_prompt 1) emailJs (Some []) [''stuck''] start) = Exit 1" by code_simp
  have e: "fst (main os_vanish emailJs (Some []) [''stuck''] start) = Exit 2" by code_simp
  from a a' b c d e show ?thesis by blast
qed

text \<open>
  Claim C9 as amended: whenever the promise of the selected mode resolves, the script
  calls \<^verbatim>\<open>process.exit\<close> with a status that depends on the mode. In mode \<^verbatim>\<open>full\<close>,
  which is also the default and the choice for an unknown mode, the status is 0 when
  health is \<^verbatim>\<open>excellent\<close> and 1 otherwise. Mode \<^verbatim>\<open>quick\<close> exits with 0 when the
  status check succeeds and with 1 otherwise, mode \<^verbatim>\<open>git\<close> exits with 0, and mode
  \<^verbatim>\<open>stuck\<close> passes the number of stuck sessions detected. The promise rejects, and
  \<^verbatim>\<open>process.exit\<close> is not called at all, when the registry cannot be loaded (modes
  \<^verbatim>\<open>git\<close> and \<^verbatim>\<open>full\<close>) and when the report file cannot be written (mode
  \<^verbatim>\<open>full\<close>); these are the only cases.
\<close>

theorem exit_status_by_mode:
  "fst (main os e reg args st) =
     (if modeOf args = ''quick'' then
        Exit (if success (fst (runMCPMonitoring os ''quick'' st)) then 0 else 1)
      else if modeOf args = ''git'' then
        (if reg = None then Unhandled RegistryNotLoaded else Exit 0)
      else if modeOf args = ''stuck'' then Exit (length (fst (detectStuckPrompts os st)))
      else (case fst (generateMonitoringReport os e reg st) of
              Inl err \<Rightarrow> Unhandled err
            | Inr r \<Rightarrow> Exit (if overallHealth (rep_summary r) = Excellent then 0 else 1)))
   \<and> (fst (generateMonitoringReport os e reg st) = Inl err \<longleftrightarrow>
        (reg = None \<and> err = RegistryNotLoaded) \<or>
        (reg \<noteq> None \<and> (\<exists>msg. saveReport os = Some msg \<and> err = ReportNotSaved msg)))"
proof -
  have g: "fst (checkGitProgress os reg st) = Inl RegistryNotLoaded" if "reg = None"
    using that by simp
  have g': "\<exists>x. fst (checkGitProgress os reg st) = Inr x" if "reg \<noteq> None"
    using that checkGit_general [of os reg st] by blast
  have 1: "fst (main os e reg args st) =
     (if modeOf args = ''quick'' then
        Exit (if success (fst (runMCPMonitoring os ''quick'' st)) then 0 else 1)
      else if modeOf args = ''git'' then
        (if reg = None then Unhandled RegistryNotLoaded else Exit 0)
      else if modeOf args = ''stuck'' then Exit (length (fst (detectStuckPrompts os st)))
      else (case fst (generateMonitoringReport os e reg st) of
              Inl err \<Rightarrow> Unhandled err
            | Inr r \<Rightarrow> Exit (if overallHealth (rep_summary r) = Excellent then 0 else 1)))"
    using g g' by (auto simp: main_def Let_def split: prod.splits sum.splits)
  from 1 report_error [of os e reg st err] show ?thesis by blast
qed

text \<open>
  A run whose registry cannot be loaded and a run whose report cannot be written end
  without a call of \<^verbatim>\<open>process.exit\<close>.
\<close>

theorem exit_status_by_mode_witness:
  "modeOf [''git''] = ''git''
   \<and> fst (main os_repos emailJs None [''git''] start) = Unhandled RegistryNotLoaded
   \<and> saveReport os_readonly = Some ''EACCES''
   \<and> fst (generateMonitoringReport os_readonly emailJs (Some []) start) =
       Inl (ReportNotSaved ''EACCES'')
   \<and> fst (main os_readonly emailJs (Some []) [] start) = Unhandled (ReportNotSaved ''EACCES'')"
proof -
  have m: "modeOf [''git''] = ''git''" "modeOf [] = ''full''" by (simp_all add: modeOf_def)
  have s: "saveReport os_readonly = Some ''EACCES''" by (simp add: os_readonly_def)
  note t1 = exit_status_by_mode
    [where os = os_repos and e = emailJs and reg = None and args = "[''git'']" and st = start]
  note t2 = exit_status_by_mode
    [where os = os_readonly and e = emailJs and reg = "Some []" and args = "[]" and st = start
       and err = "ReportNotSaved ''EACCES''"]
  have a: "fst (main os_repos emailJs None [''git''] start) = Unhandled RegistryNotLoaded"
    unfolding t1 [THEN conjunct1] m by simp
  have b: "fst (generateMonitoringReport os_readonly emailJs (Some []) start) =
       Inl (ReportNotSaved ''EACCES'')"
    unfolding t2 [THEN conjunct2] using s by simp
  have c: "fst (main os_readonly emailJs (Some []) [] start) =
      Unhandled (ReportNotSaved ''EACCES'')"
    unfolding t2 [THEN conjunct1] m b by simp
  from m(1) a s b c show ?thesis by blast
qed

end
